(* ===== verification/Vesta_Prelude.thy ===== *)
theory Vesta_Prelude
  imports Main "HOL-Library.Word"
begin

text \<open>
  Shared vocabulary of the development.
  \<^item> The machine types: \<open>u8\<close> .. \<open>u64\<close> are words of that width, a 32-byte array \<open>[u8; 32]\<close>
    (the sources' \<open>Id\<close>, and every SHA-256 digest) is the 256-bit word its bytes spell.
  \<^item> Rust's checked and saturating arithmetic on \<open>u64\<close>.
  \<^item> \<open>Result\<close> as a sum (\<open>Inl\<close> is \<open>Err\<close>), with the combinators the sources write as \<open>?\<close>,
    \<open>ensure(..)?\<close>, \<open>ok_or(..)?\<close>.
  \<^item> A database transaction that rolls back on every early return.
  \<^item> UTF-8 text: a \<open>str\<close> is the list of its bytes, \<open>len\<close> counts them, and
    \<open>s.trim().is_empty()\<close> is \<open>blank\<close>.
  \<^item> SQL tables with an integer primary key, as association lists in ascending key order.
\<close>

named_theorems res_simps "inversion of the Result combinators"
named_theorems tab_simps "facts on SQL tables"

section \<open>Machine types\<close>

type_synonym u8 = "8 word"
type_synonym u16 = "16 word"
type_synonym u32 = "32 word"
type_synonym u64 = "64 word"
type_synonym Id = "256 word"
type_synonym bytes = "u8 list"

definition i64_max :: u64 where
  "i64_max = 9223372036854775807"

definition checked_add :: "u64 \<Rightarrow> u64 \<Rightarrow> u64 option" where
  "checked_add a b = (if a + b < a then None else Some (a + b))"

definition checked_sub :: "u64 \<Rightarrow> u64 \<Rightarrow> u64 option" where
  "checked_sub a b = (if b \<le> a then Some (a - b) else None)"

definition saturating_add :: "u64 \<Rightarrow> u64 \<Rightarrow> u64" where
  "saturating_add a b = (if a + b < a then - 1 else a + b)"

definition saturating_sub :: "u64 \<Rightarrow> u64 \<Rightarrow> u64" where
  "saturating_sub a b = (if b \<le> a then a - b else 0)"

lemma unat_u64_bound: "unat (a :: u64) < 2 ^ 64"
proof -
  have "unat a < 2 ^ LENGTH(64)" by (rule unsigned_less)
  then show ?thesis by simp
qed

text \<open>A sum is below its first summand exactly when it wrapped.\<close>

lemma u64_add_wraps: "a + b < a \<longleftrightarrow> 2 ^ 64 \<le> unat a + unat (b :: u64)"
proof -
  have "(unat a + unat b) mod 2 ^ 64 < unat a \<longleftrightarrow> 2 ^ 64 \<le> unat a + unat b"
  proof (cases "unat a + unat b < 2 ^ 64")
    case False
    then have "(unat a + unat b) mod 2 ^ 64 = unat a + unat b - 2 ^ 64"
      using unat_u64_bound [of a] unat_u64_bound [of b] by (simp add: mod_if)
    with False show ?thesis using unat_u64_bound [of b] by simp
  qed simp
  then show ?thesis by (simp add: word_less_nat_alt unat_word_ariths)
qed

lemma checked_add_alt: "checked_add a b = (if unat a + unat b < 2 ^ 64 then Some (a + b) else None)"
  by (simp add: checked_add_def u64_add_wraps)

lemma checked_add_Some: "checked_add a b = Some c \<Longrightarrow> unat c = unat a + unat b"
  by (auto simp: checked_add_alt unat_word_ariths split: if_splits)

lemma checked_add_one: "checked_add a 1 = Some c \<longleftrightarrow> unat c = Suc (unat a)"
proof
  assume "checked_add a 1 = Some c"
  then show "unat c = Suc (unat a)" by (simp add: checked_add_Some)
next
  assume u: "unat c = Suc (unat a)"
  then have "unat a + 1 < 2 ^ 64" using unat_u64_bound [of c] by simp
  moreover from this have "unat (a + 1) = unat c" using u by (simp add: unat_word_ariths)
  ultimately show "checked_add a 1 = Some c" by (simp add: checked_add_alt word_unat_eq_iff)
qed

lemma checked_add_one_less: "checked_add a 1 = Some c \<Longrightarrow> a < c"
  by (simp add: checked_add_one word_less_nat_alt)

lemma checked_sub_Some: "checked_sub a b = Some c \<Longrightarrow> unat a = unat b + unat c"
  by (auto simp: checked_sub_def unat_sub word_le_nat_alt split: if_splits)

lemma unat_u64_max [simp]: "unat (- 1 :: u64) = 2 ^ 64 - 1"
  by (simp add: unsigned_minus_1_eq_mask mask_eq_exp_minus_1)

lemma unat_saturating_add: "unat (saturating_add a b) = min (unat a + unat b) (2 ^ 64 - 1)"
  by (auto simp: saturating_add_def u64_add_wraps unat_word_ariths min_def)

lemma saturating_add_ge: "a \<le> saturating_add a b"
  using unat_u64_bound [of a] by (simp add: word_le_nat_alt unat_saturating_add)

lemma unat_saturating_sub: "unat (saturating_sub a b) = unat a - unat b"
  by (auto simp: saturating_sub_def unat_sub word_le_nat_alt)

text \<open>\<open>u64::to_be_bytes\<close>.\<close>

definition u64_to_be_bytes :: "u64 \<Rightarrow> bytes" where
  "u64_to_be_bytes w = map (\<lambda>i. ucast (drop_bit (8 * i) w)) (rev [0..<8])"

lemma length_u64_to_be_bytes [simp]: "length (u64_to_be_bytes w) = 8"
  by (simp add: u64_to_be_bytes_def)

lemma u64_to_be_bytes_inject [simp]: "u64_to_be_bytes v = u64_to_be_bytes w \<longleftrightarrow> v = w"
proof
  assume eq: "u64_to_be_bytes v = u64_to_be_bytes w"
  have byte: "(ucast (drop_bit (8 * i) v) :: u8) = ucast (drop_bit (8 * i) w)" if "i < 8" for i
    using eq that by (auto simp: u64_to_be_bytes_def)
  show "v = w"
  proof (rule bit_word_eqI)
    fix n assume n: "n < LENGTH(64)"
    have "bit v (8 * (n div 8) + n mod 8) = bit w (8 * (n div 8) + n mod 8)"
      using arg_cong [OF byte [of "n div 8"], of "\<lambda>x. bit x (n mod 8)"] n
      by (simp add: bit_ucast_iff bit_drop_bit_eq)
    then show "bit v n = bit w n" by simp
  qed
qed simp

section \<open>Results\<close>

text \<open>
  An error carries the message of the source's \<open>Err\<close>, or says which library call failed under
  a \<open>?\<close>: decoding or encoding (\<open>serde_json\<close>), the database (\<open>rusqlite\<close>; a violated constraint is an
  error of its own), or a hook of the integrator's policy, whose own message is opaque.
\<close>

datatype fault =
    Refused string
  | Undecodable
  | Database
  | Constraint
  | Denied nat

type_synonym 'a res = "fault + 'a"

definition and_then :: "'e + 'a \<Rightarrow> ('a \<Rightarrow> 'e + 'b) \<Rightarrow> 'e + 'b" where
  "and_then m f = (case m of Inl e \<Rightarrow> Inl e | Inr x \<Rightarrow> f x)"

definition ensure :: "bool \<Rightarrow> string \<Rightarrow> 'a res \<Rightarrow> 'a res" where
  "ensure ok message k = (if ok then k else Inl (Refused message))"

definition ok_or :: "'a option \<Rightarrow> string \<Rightarrow> 'a res" where
  "ok_or v message = (case v of None \<Rightarrow> Inl (Refused message) | Some x \<Rightarrow> Inr x)"

definition decoded :: "'a option \<Rightarrow> 'a res" where
  "decoded v = (case v of None \<Rightarrow> Inl Undecodable | Some x \<Rightarrow> Inr x)"

definition is_ok :: "'e + 'a \<Rightarrow> bool" where
  "is_ok r = (case r of Inl _ \<Rightarrow> False | Inr _ \<Rightarrow> True)"

text \<open>\<open>Option::is_some_and\<close> and \<open>Option::is_none_or\<close>.\<close>

definition is_some_and :: "'a option \<Rightarrow> ('a \<Rightarrow> bool) \<Rightarrow> bool" where
  "is_some_and v P = (case v of None \<Rightarrow> False | Some x \<Rightarrow> P x)"

definition is_none_or :: "'a option \<Rightarrow> ('a \<Rightarrow> bool) \<Rightarrow> bool" where
  "is_none_or v P = (case v of None \<Rightarrow> True | Some x \<Rightarrow> P x)"

lemma is_some_and_simps [simp]:
  "is_some_and None P = False"
  "is_some_and (Some x) P = P x"
  by (simp_all add: is_some_and_def)

lemma is_none_or_simps [simp]:
  "is_none_or None P = True"
  "is_none_or (Some x) P = P x"
  by (simp_all add: is_none_or_def)

lemma is_some_and_iff: "is_some_and v P \<longleftrightarrow> (\<exists>x. v = Some x \<and> P x)"
  by (cases v) simp_all

lemma is_none_or_iff: "is_none_or v P \<longleftrightarrow> (\<forall>x. v = Some x \<longrightarrow> P x)"
  by (cases v) simp_all

lemma and_then_simps [simp]:
  "and_then (Inr x) f = f x"
  "and_then (Inl e) f = Inl e"
  by (simp_all add: and_then_def)

lemma and_then_Inr [res_simps]: "and_then m f = Inr y \<longleftrightarrow> (\<exists>x. m = Inr x \<and> f x = Inr y)"
  by (cases m) simp_all

lemma ensure_Inr [res_simps]: "ensure ok message k = Inr y \<longleftrightarrow> ok \<and> k = Inr y"
  by (simp add: ensure_def)

lemma ok_or_Inr [res_simps]: "ok_or v message = Inr x \<longleftrightarrow> v = Some x"
  by (cases v) (simp_all add: ok_or_def)

lemma decoded_Inr [res_simps]: "decoded v = Inr x \<longleftrightarrow> v = Some x"
  by (cases v) (simp_all add: decoded_def)

lemma is_ok_Inr [res_simps]: "is_ok r \<longleftrightarrow> (\<exists>x. r = Inr x)"
  by (cases r) (simp_all add: is_ok_def)

lemma ensure_simps [simp]:
  "ensure True message k = k"
  "ensure False message k = Inl (Refused message)"
  by (simp_all add: ensure_def)

lemma ok_or_simps [simp]:
  "ok_or (Some x) message = Inr x"
  "ok_or None message = Inl (Refused message)"
  by (simp_all add: ok_or_def)

lemma decoded_simps [simp]:
  "decoded (Some x) = Inr x"
  "decoded None = Inl Undecodable"
  by (simp_all add: decoded_def)

lemma and_then_cong [fundef_cong]:
  "m = m' \<Longrightarrow> (\<And>x. m' = Inr x \<Longrightarrow> f x = f' x) \<Longrightarrow> and_then m f = and_then m' f'"
  by (cases m') simp_all

section \<open>Transactions\<close>

text \<open>
  The body of a transaction either returns early (\<open>Inl\<close>: the transaction object is dropped and
  the database is as it was), or reaches its end with the value it returns and the database it
  leaves behind: changed when it committed, the old one when it only read.
\<close>

definition transact :: "'d \<Rightarrow> ('e + (('e + 'a) \<times> 'd)) \<Rightarrow> ('e + 'a) \<times> 'd" where
  "transact db body = (case body of Inl e \<Rightarrow> (Inl e, db) | Inr p \<Rightarrow> p)"

lemma transact_simps [simp]:
  "transact db (Inl e) = (Inl e, db)"
  "transact db (Inr p) = p"
  by (simp_all add: transact_def)

lemma transact_changes: "snd (transact db body) \<noteq> db \<Longrightarrow> \<exists>p. body = Inr p"
  by (cases body) simp_all

lemma transact_Inr:
  "transact db body = (Inr v, db') \<longleftrightarrow> body = Inr (Inr v, db')"
  by (cases body) simp_all

section \<open>Two-element arrays\<close>

text \<open>\<open>[T; 2]\<close> with the indices the sources use: \<open>0\<close>, \<open>1\<close> and \<open>1 - i\<close>.\<close>

datatype ix = I0 | I1

fun other :: "ix \<Rightarrow> ix" where
  "other I0 = I1"
| "other I1 = I0"

fun at :: "'a \<times> 'a \<Rightarrow> ix \<Rightarrow> 'a" where
  "at (a, b) I0 = a"
| "at (a, b) I1 = b"

fun put :: "'a \<times> 'a \<Rightarrow> ix \<Rightarrow> 'a \<Rightarrow> 'a \<times> 'a" where
  "put (a, b) I0 v = (v, b)"
| "put (a, b) I1 v = (a, v)"

definition position :: "('a \<Rightarrow> bool) \<Rightarrow> 'a \<times> 'a \<Rightarrow> ix option" where
  "position P p = (if P (fst p) then Some I0 else if P (snd p) then Some I1 else None)"

lemma at_put [simp]: "at (put p i v) i = v"
  by (cases p; cases i) simp_all

lemma at_put_other [simp]: "at (put p i v) (other i) = at p (other i)"
  by (cases p; cases i) simp_all

lemma other_other [simp]: "other (other i) = i"
  by (cases i) simp_all

lemma other_neq [simp]: "other i \<noteq> i" "i \<noteq> other i"
  by (cases i; simp)+

lemma at_put_True: "at (put a i True) j \<longleftrightarrow> j = i \<or> at a j"
  by (cases a; cases i; cases j) simp_all

lemma position_Some: "position P p = Some i \<Longrightarrow> P (at p i)"
  by (cases p) (auto simp: position_def split: if_splits)

lemma put_both_iff: "put p i True = (True, True) \<longleftrightarrow> at p (other i)"
  by (cases p; cases i) simp_all

section \<open>Text\<close>

text \<open>
  Rust's \<open>char::is_whitespace\<close> is the Unicode property White_Space. In UTF-8 those characters
  are six one-byte sequences, two two-byte sequences and seventeen three-byte ones.
\<close>

definition white1 :: "nat \<Rightarrow> bool" where
  "white1 a \<longleftrightarrow> 9 \<le> a \<and> a \<le> 13 \<or> a = 32"

definition white2 :: "nat \<Rightarrow> nat \<Rightarrow> bool" where
  "white2 a b \<longleftrightarrow> a = 194 \<and> (b = 133 \<or> b = 160)"

definition white3 :: "nat \<Rightarrow> nat \<Rightarrow> nat \<Rightarrow> bool" where
  "white3 a b c \<longleftrightarrow>
     a = 225 \<and> b = 154 \<and> c = 128
   \<or> a = 226 \<and> b = 128 \<and> (128 \<le> c \<and> c \<le> 138 \<or> c = 168 \<or> c = 169 \<or> c = 175)
   \<or> a = 226 \<and> b = 129 \<and> c = 159
   \<or> a = 227 \<and> b = 128 \<and> c = 128"

fun blank_bytes :: "nat list \<Rightarrow> bool" where
  "blank_bytes [] = True"
| "blank_bytes [a] = white1 a"
| "blank_bytes [a, b] = (white1 a \<and> white1 b \<or> white2 a b)"
| "blank_bytes (a # b # c # r) =
     (if white1 a then blank_bytes (b # c # r)
      else if white2 a b then blank_bytes (c # r)
      else if white3 a b c then blank_bytes r
      else False)"

definition blank :: "string \<Rightarrow> bool" where
  "blank s = blank_bytes (map of_char s)"

definition as_bytes :: "string \<Rightarrow> bytes" where
  "as_bytes s = map (\<lambda>c. word_of_nat (of_char c)) s"

text \<open>\<open>len()\<close> is an integer, so that the sources' byte limits stay binary numbers under evaluation.\<close>

definition len :: "'a list \<Rightarrow> int" where
  "len xs = int (length xs)"

lemma len_simps [simp]:
  "len [] = 0" "len (x # xs) = len xs + 1" "len (xs @ ys) = len xs + len ys"
  "len (replicate n x) = int n" "0 \<le> len xs"
  by (simp_all add: len_def)

lemma blank_Nil [simp]: "blank []"
  by (simp add: blank_def)

lemma length_as_bytes [simp]: "length (as_bytes s) = length s"
  by (simp add: as_bytes_def)

text \<open>\<open>str::split(sep)\<close>: the maximal separator-free pieces, at least one.\<close>

fun split_on :: "char \<Rightarrow> string \<Rightarrow> string list" where
  "split_on sep [] = [[]]"
| "split_on sep (c # cs) =
     (if c = sep then [] # split_on sep cs
      else case split_on sep cs of
             [] \<Rightarrow> [[c]]
           | p # ps \<Rightarrow> (c # p) # ps)"

lemma split_on_nonempty [simp]: "split_on sep s \<noteq> []"
  by (induction s) (auto split: list.splits)

lemma split_on_free: "sep \<notin> set s \<Longrightarrow> split_on sep s = [s]"
  by (induction s) auto

lemma split_on_append:
  "sep \<notin> set p \<Longrightarrow> split_on sep (p @ sep # s) = p # split_on sep s"
  by (induction p) auto

section \<open>Tables\<close>

text \<open>
  A table with an \<open>INTEGER PRIMARY KEY\<close> holds at most one row per key, and
  \<open>SELECT .. ORDER BY key\<close> lists it in ascending order: an association list with strictly
  ascending keys. \<open>INSERT\<close> fails on a key that is present; \<open>UPDATE .. WHERE key = k\<close> reports how
  many rows it changed.
\<close>

type_synonym 'r table = "(u64 \<times> 'r) list"

fun tab_add :: "u64 \<Rightarrow> 'r \<Rightarrow> 'r table \<Rightarrow> 'r table" where
  "tab_add k r [] = [(k, r)]"
| "tab_add k r ((k', r') # t) =
     (if k < k' then (k, r) # (k', r') # t else (k', r') # tab_add k r t)"

definition tab_insert :: "u64 \<Rightarrow> 'r \<Rightarrow> 'r table \<Rightarrow> 'r table res" where
  "tab_insert k r t = (if k \<in> fst ` set t then Inl Database else Inr (tab_add k r t))"

definition tab_update :: "u64 \<Rightarrow> 'r \<Rightarrow> 'r table \<Rightarrow> nat \<times> 'r table" where
  "tab_update k r t =
     (length (filter (\<lambda>x. fst x = k) t), map (\<lambda>x. if fst x = k then (k, r) else x) t)"

definition table_ok :: "'r table \<Rightarrow> bool" where
  "table_ok t \<longleftrightarrow> sorted_wrt (<) (map fst t)"

lemma set_tab_add [tab_simps]: "set (tab_add k r t) = insert (k, r) (set t)"
  by (induction k r t rule: tab_add.induct) auto

lemma table_ok_Nil [tab_simps]: "table_ok []"
  by (simp add: table_ok_def)

lemma table_ok_tab_add [tab_simps]:
  "table_ok t \<Longrightarrow> k \<notin> fst ` set t \<Longrightarrow> table_ok (tab_add k r t)"
  unfolding table_ok_def
proof (induction k r t rule: tab_add.induct)
  case (2 k r k' r' t)
  have s: "fst ` set (tab_add k r t) = insert k (fst ` set t)"
    by (auto simp: set_tab_add)
  from 2 show ?case
    by (auto simp: s)
qed simp

lemma map_fst_tab_update [simp]: "map fst (snd (tab_update k r t)) = map fst t"
  by (auto simp: tab_update_def)

lemma table_ok_tab_update [tab_simps]: "table_ok (snd (tab_update k r t)) = table_ok t"
  by (simp add: table_ok_def)

lemma table_ok_distinct: "table_ok t \<Longrightarrow> distinct (map fst t)"
  by (auto simp: table_ok_def strict_sorted_iff)

text \<open>A key above every stored one goes to the end.\<close>

lemma tab_add_last [tab_simps]:
  "\<forall>x \<in> fst ` set t. x < k \<Longrightarrow> tab_add k r t = t @ [(k, r)]"
  by (induction k r t rule: tab_add.induct) (auto simp: not_less)

lemma tab_update_last [tab_simps]:
  "k \<notin> fst ` set t \<Longrightarrow> tab_update k r (t @ [(k, r')]) = (1, t @ [(k, r)])"
  by (force simp: tab_update_def filter_empty_conv intro!: map_idI)

end
