(* ===== verification/Jws.thy ===== *)
theory Jws
  imports Vesta_Prelude
begin

text \<open>
  The compact signed token that every authority decision travels in: \<open>header.payload.signature\<close>,
  each segment unpadded URL-safe base64, signed with ES256. The sources repeat the same steps in
  \<^verbatim>\<open>replication/recovery/src/grant.rs\<close>, \<^verbatim>\<open>transition.rs\<close> and \<^verbatim>\<open>transition/loss.rs\<close>; here they are
  written once and each verifier composes them in its own order.

  Base64, SHA-256, the ECDSA check and the JSON decoding of the header belong to libraries that
  are not part of this repository. They are the fields of \<open>crypto\<close>, an argument of every
  definition that uses them.
\<close>

section \<open>Trusted profile\<close>

record Profile =
  pr_issuer :: string
  pr_audience :: string
  pr_token_type :: string

definition profile_validate :: "Profile \<Rightarrow> unit res" where
  "profile_validate p =
     (if list_ex (\<lambda>v. blank v \<or> len v > 512) [pr_issuer p, pr_audience p, pr_token_type p]
      then Inl (Refused ''invalid trusted profile'')
      else Inr ())"

section \<open>Token parts\<close>

record Header =
  h_alg :: string
  h_kid :: string
  h_typ :: string

record crypto =
  b64_decode :: "string \<Rightarrow> bytes option"
  b64_encode :: "bytes \<Rightarrow> string"
  sha256 :: "bytes \<Rightarrow> Id"
  es256 :: "bytes \<Rightarrow> bytes \<Rightarrow> bytes \<Rightarrow> bool"
  header_json :: "bytes \<Rightarrow> Header option"

definition decode_segment :: "'x crypto_scheme \<Rightarrow> string \<Rightarrow> bytes res" where
  "decode_segment E segment =
     and_then (ok_or (b64_decode E segment) ''encoding'') (\<lambda>b.
       if segment = [] \<or> b64_encode E b \<noteq> segment
       then Inl (Refused ''noncanonical encoding'')
       else Inr b)"

text \<open>
  The shape of a compact token: at most \<open>limit\<close> bytes, exactly three segments, a header segment
  of at most 1024 bytes.
\<close>

definition compact_parts :: "int \<Rightarrow> string \<Rightarrow> (string \<times> string \<times> string) res" where
  "compact_parts limit token =
     (if len token > limit then Inl (Refused ''token limit'')
      else case split_on CHR ''.'' token of
        [] \<Rightarrow> Inl (Refused ''header'')
      | [_] \<Rightarrow> Inl (Refused ''payload'')
      | [_, _] \<Rightarrow> Inl (Refused ''signature'')
      | h # p # s # rest \<Rightarrow>
          if rest \<noteq> [] \<or> len h > 1024 then Inl (Refused ''compact shape'')
          else Inr (h, p, s))"

definition unique_key :: "(string \<times> bytes) list \<Rightarrow> string \<Rightarrow> bytes res" where
  "unique_key keys kid =
     (case filter (\<lambda>k. fst k = kid) keys of
        [] \<Rightarrow> Inl (Refused ''untrusted key'')
      | [k] \<Rightarrow> Inr (snd k)
      | _ \<Rightarrow> Inl (Refused ''ambiguous key''))"

text \<open>
  The key a header selects: the header decodes, is for ES256, passes the verifier's purpose test
  on its type, names a key, and that name is trusted exactly once.
\<close>

definition header_key ::
  "'x crypto_scheme \<Rightarrow> (string \<times> bytes) list \<Rightarrow> (string \<Rightarrow> bool) \<Rightarrow> string \<Rightarrow> bytes res" where
  "header_key E keys purpose h =
     and_then (decode_segment E h) (\<lambda>raw.
     and_then (ok_or (header_json E raw) ''header schema'') (\<lambda>header.
       if h_alg header \<noteq> ''ES256'' \<or> \<not> purpose (h_typ header) \<or> h_kid header = []
       then Inl (Refused ''header purpose'')
       else unique_key keys (h_kid header)))"

definition check_signature ::
  "'x crypto_scheme \<Rightarrow> bytes \<Rightarrow> string \<Rightarrow> string \<times> string \<times> string \<Rightarrow> unit res" where
  "check_signature E key token parts =
     (case parts of (h, p, s) \<Rightarrow>
       and_then (decode_segment E s) (\<lambda>sig.
         if len sig \<noteq> 64 then Inl (Refused ''signature shape'')
         else if es256 E key (take (length h + 1 + length p) (as_bytes token)) sig then Inr ()
         else Inl (Refused ''signature'')))"

section \<open>What acceptance means\<close>

lemma decode_segment_Inr [res_simps]:
  "decode_segment E segment = Inr b \<longleftrightarrow>
     b64_decode E segment = Some b \<and> segment \<noteq> [] \<and> b64_encode E b = segment"
  by (auto simp: decode_segment_def res_simps)

lemma unique_key_Inr:
  "unique_key keys kid = Inr key \<longleftrightarrow> filter (\<lambda>k. fst k = kid) keys = [(kid, key)]"
proof
  assume a: "unique_key keys kid = Inr key"
  then obtain k where k: "filter (\<lambda>k. fst k = kid) keys = [k]" "snd k = key"
    by (auto simp: unique_key_def split: list.splits)
  then have "k \<in> set (filter (\<lambda>k. fst k = kid) keys)" by simp
  then have "fst k = kid" by simp
  with k show "filter (\<lambda>k. fst k = kid) keys = [(kid, key)]" by (cases k) simp
qed (simp add: unique_key_def)

lemma unique_key_trusted: "unique_key keys kid = Inr key \<Longrightarrow> (kid, key) \<in> set keys"
proof -
  assume "unique_key keys kid = Inr key"
  then have "(kid, key) \<in> set (filter (\<lambda>k. fst k = kid) keys)" by (simp add: unique_key_Inr)
  then show ?thesis by simp
qed

lemma header_key_Inr:
  "header_key E keys purpose h = Inr key \<longleftrightarrow>
     (\<exists>raw header. decode_segment E h = Inr raw \<and> header_json E raw = Some header
        \<and> h_alg header = ''ES256'' \<and> purpose (h_typ header) \<and> h_kid header \<noteq> []
        \<and> unique_key keys (h_kid header) = Inr key)"
  by (auto simp: header_key_def and_then_Inr ok_or_Inr)

lemma split_on_join: "split_on sep s = ps \<Longrightarrow> s = concat (butlast (map (\<lambda>p. p @ [sep]) ps)) @ last ps"
proof (induction s arbitrary: ps)
  case (Cons c s)
  obtain q qs where q: "split_on sep s = q # qs"
    by (cases "split_on sep s") simp_all
  with Cons show ?case by (cases qs) (auto split: if_splits)
qed simp

lemma split_on_no_sep: "p \<in> set (split_on sep s) \<Longrightarrow> sep \<notin> set p"
proof (induction s arbitrary: p)
  case (Cons c s)
  obtain q qs where q: "split_on sep s = q # qs"
    by (cases "split_on sep s") simp_all
  with Cons show ?case by (auto split: if_splits)
qed simp

lemma compact_parts_Inr:
  "compact_parts limit token = Inr (h, p, s) \<longleftrightarrow>
     len token \<le> limit \<and> split_on CHR ''.'' token = [h, p, s] \<and> len h \<le> 1024"
  by (auto simp: compact_parts_def split: list.splits if_splits)

lemma compact_parts_token:
  assumes "compact_parts limit token = Inr (h, p, s)"
  shows "token = h @ ''.'' @ p @ ''.'' @ s"
    and "take (length h + 1 + length p) token = h @ ''.'' @ p"
proof -
  show "token = h @ ''.'' @ p @ ''.'' @ s"
    using assms split_on_join [of "CHR ''.''" token] by (auto simp: compact_parts_Inr)
  then show "take (length h + 1 + length p) token = h @ ''.'' @ p"
    by simp
qed

text \<open>The signature check covers exactly the first two segments as they were sent.\<close>

lemma check_signature_Inr:
  assumes "compact_parts limit token = Inr (h, p, s)"
  shows "check_signature E key token (h, p, s) = Inr u \<longleftrightarrow>
    (\<exists>sig. decode_segment E s = Inr sig \<and> len sig = 64 \<and> es256 E key (as_bytes (h @ ''.'' @ p)) sig)"
proof -
  have "take (length h + 1 + length p) (as_bytes token) = as_bytes (h @ ''.'' @ p)"
    unfolding as_bytes_def take_map compact_parts_token(2) [OF assms] by (rule refl)
  then show ?thesis by (auto simp: check_signature_def and_then_Inr)
qed

lemma split_on_three:
  assumes "CHR ''.'' \<notin> set h" "CHR ''.'' \<notin> set p" "CHR ''.'' \<notin> set s"
  shows "split_on CHR ''.'' (h @ ''.'' @ p @ ''.'' @ s) = [h, p, s]"
  using assms by (simp add: split_on_append split_on_free)

end
