(* ===== verification/Recovery_Model.thy ===== *)
theory Recovery_Model
  imports Vesta_Prelude "HOL-Library.Sublist"
begin

text \<open>
  The recovery plan specification, \<^verbatim>\<open>replication/recovery/src/model.rs\<close>: the abstract state machine
  of a controlled primary replacement. A plan is authorized, the old primary is fenced, the
  survivor's checkpoint is sealed, the candidate is installed, both members prepare, both
  activate. The lemmas show that the machine cannot skip or reorder a phase, that a bound plan is
  never exchanged, and that the planned sequence of events does reach write eligibility.
\<close>

section \<open>Data\<close>

record Baseline =
  b_scope :: string
  b_revision :: u64
  b_digest :: Id
  b_old_primary :: Id
  b_survivor :: Id
  b_survivor_generation :: Id
  b_checkpoint :: Id

definition baseline_validate :: "Baseline \<Rightarrow> unit res" where
  "baseline_validate b =
     (if blank (b_scope b)
       \<or> 0 \<in> set [b_digest b, b_old_primary b, b_survivor b, b_survivor_generation b, b_checkpoint b]
       \<or> b_old_primary b = b_survivor b
      then Inl (Refused ''plan does not extend baseline'')
      else Inr ())"

record Plan =
  p_recovery_id :: Id
  p_baseline :: Baseline
  p_revision :: u64
  p_candidate :: Id

datatype Fence = HealthFailed | Isolated Id

datatype Tail = Quiescent | Prepared | Decided | Corrupt | Unknown

datatype Event =
    Authorize
  | Fencing Fence
  | Seal Id Tail
  | Install Id
  | Prepare Id
  | Activate Id

datatype Phase = Restricted | Fenced | SourceSealed | CandidateInstalled

text \<open>The derived order of \<open>Phase\<close> is the order of its constructors.\<close>

fun phase_rank :: "Phase \<Rightarrow> nat" where
  "phase_rank Restricted = 0"
| "phase_rank Fenced = 1"
| "phase_rank SourceSealed = 2"
| "phase_rank CandidateInstalled = 3"

lemma phase_rank_inject: "phase_rank a = phase_rank b \<Longrightarrow> a = b"
  by (cases a; cases b) simp_all

instantiation Phase :: linorder
begin

definition less_eq_Phase :: "Phase \<Rightarrow> Phase \<Rightarrow> bool" where
  "a \<le> b \<longleftrightarrow> phase_rank a \<le> phase_rank b"

definition less_Phase :: "Phase \<Rightarrow> Phase \<Rightarrow> bool" where
  "a < b \<longleftrightarrow> phase_rank a < phase_rank b"

instance
  by standard (auto simp: less_eq_Phase_def less_Phase_def intro: phase_rank_inject)

end

record Model =
  m_baseline :: Baseline
  m_plan :: "Plan option"
  m_phase :: Phase
  m_prepared :: "bool \<times> bool"
  m_active :: "bool \<times> bool"

section \<open>Operations\<close>

definition model_new :: "Baseline \<Rightarrow> Model" where
  "model_new b =
     \<lparr>m_baseline = b, m_plan = None, m_phase = Restricted,
      m_prepared = (False, False), m_active = (False, False)\<rparr>"

definition validate_plan :: "Model \<Rightarrow> Plan \<Rightarrow> unit res" where
  "validate_plan m p =
     and_then (baseline_validate (m_baseline m)) (\<lambda>_.
       if p_baseline p \<noteq> m_baseline m
         \<or> checked_add (b_revision (m_baseline m)) 1 \<noteq> Some (p_revision p)
         \<or> p_recovery_id p = 0
         \<or> p_candidate p = 0
         \<or> p_candidate p = b_old_primary (m_baseline m)
         \<or> p_candidate p = b_survivor (m_baseline m)
       then Inl (Refused ''plan does not extend baseline'')
       else if is_some_and (m_plan m) (\<lambda>bound. bound \<noteq> p)
       then Inl (Refused ''another plan already bound'')
       else Inr ())"

definition pair_member :: "Plan \<Rightarrow> Id \<Rightarrow> ix res" where
  "pair_member p i =
     (if i = p_candidate p then Inr I0
      else if i = b_survivor (p_baseline p) then Inr I1
      else Inl (Refused ''not a member of replacement pair''))"

definition model_step :: "Plan \<Rightarrow> Event \<Rightarrow> Model \<Rightarrow> unit res \<times> Model" where
  "model_step p event m = transact m (
     and_then (validate_plan m p) (\<lambda>_.
       if event = Authorize then Inr (Inr (), m\<lparr>m_plan := Some p\<rparr>)
       else if m_plan m \<noteq> Some p then Inl (Refused ''authorization required'')
       else case event of
         Authorize \<Rightarrow> Inr (Inr (), m)
       | Fencing proof \<Rightarrow>
           if proof \<noteq> Isolated (b_old_primary (p_baseline p))
           then Inl (Refused ''health or wrong instance is not fencing'')
           else Inr (Inr (), m\<lparr>m_phase := max (m_phase m) Fenced\<rparr>)
       | Seal checkpoint tail \<Rightarrow>
           if m_phase m < Fenced \<or> checkpoint \<noteq> b_checkpoint (p_baseline p) \<or> tail \<noteq> Quiescent
           then Inl (Refused ''source not fenced, matching and quiescent'')
           else Inr (Inr (), m\<lparr>m_phase := max (m_phase m) SourceSealed\<rparr>)
       | Install checkpoint \<Rightarrow>
           if m_phase m < SourceSealed \<or> checkpoint \<noteq> b_checkpoint (p_baseline p)
           then Inl (Refused ''candidate does not match sealed source'')
           else Inr (Inr (), m\<lparr>m_phase := max (m_phase m) CandidateInstalled\<rparr>)
       | Prepare i \<Rightarrow>
           and_then (pair_member p i) (\<lambda>k.
             if m_phase m \<noteq> CandidateInstalled then Inl (Refused ''installation required'')
             else Inr (Inr (), m\<lparr>m_prepared := put (m_prepared m) k True\<rparr>))
       | Activate i \<Rightarrow>
           and_then (pair_member p i) (\<lambda>k.
             if m_prepared m \<noteq> (True, True) then Inl (Refused ''both members must be prepared'')
             else Inr (Inr (), m\<lparr>m_active := put (m_active m) k True\<rparr>))))"

definition both_active :: "Model \<Rightarrow> bool" where
  "both_active m \<longleftrightarrow> m_active m = (True, True)"

definition write_eligible :: "Model \<Rightarrow> Plan \<Rightarrow> Id \<Rightarrow> bool \<Rightarrow> bool" where
  "write_eligible m p i peer_available \<longleftrightarrow>
     m_plan m = Some p \<and> i = p_candidate p \<and> both_active m \<and> peer_available"

text \<open>A caller's sequence of attempts; a refused one leaves the model as it was.\<close>

fun model_run :: "(Plan \<times> Event) list \<Rightarrow> Model \<Rightarrow> Model" where
  "model_run [] m = m"
| "model_run ((p, e) # es) m = model_run es (snd (model_step p e m))"

section \<open>One step\<close>

lemma phase_less_iff [simp]:
  "(x < Fenced) = (x = Restricted)"
  "(x < SourceSealed) = (x = Restricted \<or> x = Fenced)"
  by (cases x; simp add: less_Phase_def)+

lemma phase_max_simps [simp]:
  "max x Fenced = (if x = Restricted then Fenced else x)"
  "max x SourceSealed = (if x = Restricted \<or> x = Fenced then SourceSealed else x)"
  "max x CandidateInstalled = CandidateInstalled"
  by (cases x; simp add: max_def less_eq_Phase_def)+

text \<open>An accepted event, by kind; everything else about a step follows from this case analysis.\<close>

inductive accepted :: "Plan \<Rightarrow> Model \<Rightarrow> Event \<Rightarrow> Model \<Rightarrow> bool" for p m where
  Authorize: "m_plan m \<in> {None, Some p} \<Longrightarrow> accepted p m Authorize (m\<lparr>m_plan := Some p\<rparr>)"
| Fencing: "m_plan m = Some p \<Longrightarrow>
    accepted p m (Fencing (Isolated (b_old_primary (p_baseline p))))
      (m\<lparr>m_phase := max (m_phase m) Fenced\<rparr>)"
| Seal: "m_plan m = Some p \<Longrightarrow> m_phase m \<noteq> Restricted \<Longrightarrow>
    accepted p m (Seal (b_checkpoint (p_baseline p)) Quiescent)
      (m\<lparr>m_phase := max (m_phase m) SourceSealed\<rparr>)"
| Install: "m_plan m = Some p \<Longrightarrow> m_phase m \<noteq> Restricted \<Longrightarrow> m_phase m \<noteq> Fenced \<Longrightarrow>
    accepted p m (Install (b_checkpoint (p_baseline p))) (m\<lparr>m_phase := CandidateInstalled\<rparr>)"
| Prepare: "m_plan m = Some p \<Longrightarrow> m_phase m = CandidateInstalled \<Longrightarrow>
    pair_member p i = Inr k \<Longrightarrow>
    accepted p m (Prepare i) (m\<lparr>m_prepared := put (m_prepared m) k True\<rparr>)"
| Activate: "m_plan m = Some p \<Longrightarrow> m_prepared m = (True, True) \<Longrightarrow>
    pair_member p i = Inr k \<Longrightarrow>
    accepted p m (Activate i) (m\<lparr>m_active := put (m_active m) k True\<rparr>)"

lemma validate_plan_bound: "validate_plan m p = Inr () \<Longrightarrow> m_plan m \<in> {None, Some p}"
  by (cases "m_plan m") (auto simp: validate_plan_def res_simps split: if_splits)

lemma model_step_accepted:
  assumes "fst (model_step p e m) = Inr ()"
  shows "accepted p m e (snd (model_step p e m))"
proof (cases "validate_plan m p")
  case (Inr u)
  note ok = this
  show ?thesis
  proof (cases "e = Authorize")
    case True
    with ok show ?thesis
      using validate_plan_bound [of m p] by (simp add: model_step_def accepted.Authorize)
  next
    case False
    with ok assms have bound: "m_plan m = Some p"
      by (auto simp: model_step_def split: if_splits)
    show ?thesis
      using assms ok bound False
      by (cases e)
         (auto simp: model_step_def and_then_def simp del: phase_max_simps(1,2)
           intro: accepted.intros split: if_splits sum.splits)
  qed
qed (use assms in \<open>simp add: model_step_def\<close>)

lemma model_step_error: "fst (model_step p e m) = Inl f \<Longrightarrow> snd (model_step p e m) = m"
  by (auto simp: model_step_def transact_def and_then_def
      split: sum.splits if_splits Event.splits)

lemma model_step_cases:
  obtains (kept) "snd (model_step p e m) = m"
  | (moved) "accepted p m e (snd (model_step p e m))"
  by (cases "fst (model_step p e m)") (auto intro: model_step_error model_step_accepted)

lemma model_step_baseline [simp]: "m_baseline (snd (model_step p e m)) = m_baseline m"
  by (cases rule: model_step_cases [of p e m]) (auto elim: accepted.cases)

lemma model_step_plan_kept: "m_plan m = Some q \<Longrightarrow> m_plan (snd (model_step p e m)) = Some q"
  by (cases rule: model_step_cases [of p e m]) (auto elim: accepted.cases)

lemma model_run_append: "model_run (es @ fs) m = model_run fs (model_run es m)"
  by (induction es m rule: model_run.induct) simp_all

lemma model_run_snoc: "model_run (es @ [(p, e)]) m = snd (model_step p e (model_run es m))"
  by (simp add: model_run_append)

lemma model_run_baseline [simp]: "m_baseline (model_run es m) = m_baseline m"
  by (induction es m rule: model_run.induct) simp_all

lemma model_run_plan_kept: "m_plan m = Some q \<Longrightarrow> m_plan (model_run es m) = Some q"
  by (induction es m rule: model_run.induct) (simp_all add: model_step_plan_kept)

section \<open>What a run has earned\<close>

text \<open>
  The events that must lie behind a state, in this order: for the phases, for a prepared member
  and for an active one. \<open>who p k\<close> is the member with index \<open>k\<close> of the replacement pair.
\<close>

definition who :: "Plan \<Rightarrow> ix \<Rightarrow> Id" where
  "who p k = (case k of I0 \<Rightarrow> p_candidate p | I1 \<Rightarrow> b_survivor (p_baseline p))"

definition protocol :: "Plan \<Rightarrow> (Plan \<times> Event) list" where
  "protocol p =
     [(p, Authorize), (p, Fencing (Isolated (b_old_primary (p_baseline p)))),
      (p, Seal (b_checkpoint (p_baseline p)) Quiescent), (p, Install (b_checkpoint (p_baseline p)))]"

definition earned :: "(Plan \<times> Event) list \<Rightarrow> Model \<Rightarrow> bool" where
  "earned es m \<longleftrightarrow>
     (case m_plan m of
        None \<Rightarrow> m_phase m = Restricted \<and> m_prepared m = (False, False) \<and> m_active m = (False, False)
      | Some p \<Rightarrow>
          subseq (take (Suc (phase_rank (m_phase m))) (protocol p)) es
        \<and> (\<forall>k. at (m_prepared m) k \<longrightarrow> subseq (protocol p @ [(p, Prepare (who p k))]) es)
        \<and> (\<forall>k. at (m_active m) k \<longrightarrow>
              (\<forall>j. subseq (protocol p @ [(p, Prepare (who p j)), (p, Activate (who p k))]) es)))"

lemma subseq_snoc: "subseq xs ys \<Longrightarrow> subseq (xs @ [a]) (ys @ [a])"
  by (simp add: list_emb_append_mono)

lemma subseq_later: "subseq xs ys \<Longrightarrow> subseq xs (ys @ [a])"
  by (rule subseq_order.order_trans) auto

lemma earned_later: "earned es m \<Longrightarrow> earned (es @ [a]) m"
  by (auto simp: earned_def intro: subseq_later split: option.splits)

lemma pair_member_who: "pair_member p i = Inr k \<Longrightarrow> i = who p k"
  by (auto simp: pair_member_def who_def split: if_splits)

lemma all_ix: "(\<forall>k. P k) \<longleftrightarrow> P I0 \<and> P I1"
  by (metis ix.exhaust)

lemma protocol_take [simp]:
  "take (Suc (Suc 0)) (protocol p) = [(p, Authorize)] @ [(p, Fencing (Isolated (b_old_primary (p_baseline p))))]"
  "take (Suc 0) (protocol p) = [(p, Authorize)]"
  "take 2 (protocol p) = [(p, Authorize)] @ [(p, Fencing (Isolated (b_old_primary (p_baseline p))))]"
  "take 3 (protocol p) = take 2 (protocol p) @ [(p, Seal (b_checkpoint (p_baseline p)) Quiescent)]"
  "take 4 (protocol p) = protocol p"
  by (simp_all add: protocol_def numeral_2_eq_2 numeral_3_eq_3)
lemma earned_accepted:
  assumes "accepted p m e m'" and "earned es m"
  shows "earned (es @ [(p, e)]) m'"
  using assms
proof cases
  case Authorize
  have "subseq [(p, Authorize)] (es @ [(p, Authorize)])" by auto
  with Authorize assms(2) show ?thesis
    by (auto simp: earned_def all_ix intro: subseq_later split: option.splits)
next
  case Fencing
  with assms(2) show ?thesis
    using subseq_snoc [of "take 1 (protocol p)" es "(p, e)"]
    by (cases "m_phase m") (auto simp: earned_def intro: subseq_later)
next
  case Seal
  with assms(2) show ?thesis
    using subseq_snoc [of "take 2 (protocol p)" es "(p, e)"]
    by (cases "m_phase m") (auto simp: earned_def intro: subseq_later)
next
  case Install
  with assms(2) show ?thesis
    using subseq_snoc [of "take 3 (protocol p)" es "(p, e)"]
    by (cases "m_phase m") (auto simp: earned_def protocol_def intro: subseq_later)
next
  case (Prepare i k)
  then have "i = who p k" by (simp add: pair_member_who)
  with Prepare assms(2) show ?thesis
    by (cases k; cases "m_prepared m")
       (auto simp: earned_def all_ix intro: subseq_later subseq_snoc)
next
  case (Activate i k)
  then have i: "i = who p k" by (simp add: pair_member_who)
  have "subseq (protocol p @ [(p, Prepare (who p j))] @ [(p, Activate i)]) (es @ [(p, Activate i)])"
    for j using Activate assms(2) subseq_snoc [of "protocol p @ [(p, Prepare (who p j))]" es]
    by (cases j) (auto simp: earned_def all_ix)
  with i Activate assms(2) show ?thesis
    by (cases k; cases "m_active m") (auto simp: earned_def all_ix intro: subseq_later)
qed

lemma earned_run: "earned es (model_run es (model_new b))"
proof (induction es rule: rev_induct)
  case Nil
  show ?case by (simp add: earned_def model_new_def)
next
  case (snoc x es)
  obtain p e where x: "x = (p, e)" by (cases x)
  show ?case
    by (cases rule: model_step_cases [of p e "model_run es (model_new b)"])
       (use snoc x in \<open>simp_all add: model_run_snoc earned_later earned_accepted\<close>)
qed
section \<open>A concrete replacement\<close>

definition sample_baseline :: Baseline where
  "sample_baseline =
     \<lparr>b_scope = ''tenant'', b_revision = 6, b_digest = 11, b_old_primary = 12, b_survivor = 13,
      b_survivor_generation = 14, b_checkpoint = 15\<rparr>"

definition sample_plan :: Plan where
  "sample_plan =
     \<lparr>p_recovery_id = 16, p_baseline = sample_baseline, p_revision = 7, p_candidate = 17\<rparr>"

definition sample_events :: "(Plan \<times> Event) list" where
  "sample_events =
     [(sample_plan, Fencing HealthFailed), (sample_plan, Authorize),
      (sample_plan, Seal 15 Quiescent), (sample_plan, Fencing (Isolated 12)),
      (sample_plan, Seal 15 Quiescent), (sample_plan, Install 15), (sample_plan, Prepare 17),
      (sample_plan, Activate 17), (sample_plan, Prepare 13), (sample_plan, Activate 13),
      (sample_plan, Activate 17)]"

lemmas sample_defs = sample_baseline_def sample_plan_def sample_events_def

section \<open>Properties\<close>

text \<open>
  C1. Write eligibility is earned in order. Whatever plans and events a caller attempts from a
  fresh model, if the model then calls a member write eligible under a plan, that member is the
  plan's candidate with its peer available, and the attempts contain, in this order, the plan's
  authorization, the isolation of the old primary, the seal of the quiescent source checkpoint,
  the installation of that checkpoint, the preparation of either member and then the activation
  of either member.
\<close>

theorem write_eligible_earned:
  assumes "write_eligible (model_run es (model_new b)) p i available"
  shows "i = p_candidate p \<and> available \<and>
    (\<forall>j k. subseq
       [(p, Authorize), (p, Fencing (Isolated (b_old_primary (p_baseline p)))),
        (p, Seal (b_checkpoint (p_baseline p)) Quiescent),
        (p, Install (b_checkpoint (p_baseline p))),
        (p, Prepare (who p j)), (p, Activate (who p k))] es)"
proof -
  have "at (m_active (model_run es (model_new b))) k" for k
    using assms by (cases k) (auto simp: write_eligible_def both_active_def)
  then show ?thesis
    using earned_run [of es b] assms by (auto simp: earned_def protocol_def write_eligible_def)
qed

theorem write_eligible_earned_witness:
  "write_eligible (model_run sample_events (model_new sample_baseline)) sample_plan 17 True
   \<and> subseq [(sample_plan, Authorize), (sample_plan, Fencing (Isolated 12)),
       (sample_plan, Seal 15 Quiescent), (sample_plan, Install 15),
       (sample_plan, Prepare 13), (sample_plan, Activate 17)] sample_events"
proof -
  have h: "write_eligible (model_run sample_events (model_new sample_baseline)) sample_plan 17 True"
    by code_simp
  moreover have "who sample_plan I1 = 13" "who sample_plan I0 = 17"
    "p_baseline sample_plan = sample_baseline" "b_old_primary sample_baseline = 12"
    "b_checkpoint sample_baseline = 15"
    by (simp_all add: who_def sample_defs)
  ultimately show ?thesis using write_eligible_earned [OF h] by metis
qed

text \<open>
  C2. The binding of a plan is permanent: once a run has authorized a plan, no further attempts,
  under that plan or any other, unbind or exchange it, and every attempt under another plan is
  refused.
\<close>

theorem bound_plan_is_final:
  assumes "m_plan m = Some p"
  shows "m_plan (model_run es m) = Some p \<and>
    (q \<noteq> p \<longrightarrow> (\<exists>f. model_step q e m = (Inl f, m)))"
proof -
  have "\<exists>f. model_step q e m = (Inl f, m)" if "q \<noteq> p"
  proof (cases "validate_plan m q")
    case (Inl f)
    then show ?thesis by (simp add: model_step_def)
  next
    case (Inr u)
    with that assms show ?thesis using validate_plan_bound [of m q] by auto
  qed
  with model_run_plan_kept [OF assms] show ?thesis by blast
qed

theorem bound_plan_is_final_witness:
  "m_plan (model_run [(sample_plan, Authorize)] (model_new sample_baseline)) = Some sample_plan
   \<and> (\<exists>f. model_step (sample_plan\<lparr>p_candidate := 18\<rparr>) Authorize
            (model_run [(sample_plan, Authorize)] (model_new sample_baseline))
          = (Inl f, model_run [(sample_plan, Authorize)] (model_new sample_baseline)))"
proof -
  have h: "m_plan (model_run [(sample_plan, Authorize)] (model_new sample_baseline)) = Some sample_plan"
    by code_simp
  have "sample_plan\<lparr>p_candidate := 18\<rparr> \<noteq> sample_plan"
    by (simp add: sample_defs)
  with h show ?thesis using bound_plan_is_final [OF h] by blast
qed

text \<open>
  C3. The protocol can be completed: for every plan that extends a valid baseline, the planned
  sequence of events takes a fresh model to the state in which the candidate is write eligible
  (when its peer is available) and neither the old primary nor the survivor is.
\<close>

theorem protocol_reaches_eligibility:
  assumes "validate_plan (model_new b) p = Inr ()"
  shows "let m = model_run (protocol p @
             [(p, Prepare (who p I0)), (p, Prepare (who p I1)),
              (p, Activate (who p I0)), (p, Activate (who p I1))]) (model_new b)
         in write_eligible m p (p_candidate p) True
          \<and> \<not> write_eligible m p (b_old_primary b) True
          \<and> \<not> write_eligible m p (b_survivor b) True"
proof -
  have v: "validate_plan m p = Inr ()" if "m_baseline m = b" "m_plan m \<in> {None, Some p}" for m
    using assms that by (auto simp: validate_plan_def model_new_def res_simps is_some_and_iff split: if_splits)
  have ne: "p_candidate p \<noteq> b_survivor b" "p_candidate p \<noteq> b_old_primary b" "p_baseline p = b"
    using assms by (auto simp: validate_plan_def model_new_def res_simps split: if_splits)
  show ?thesis
    using ne
    by (simp add: Let_def protocol_def model_new_def model_step_def v who_def pair_member_def
        write_eligible_def both_active_def)
qed
theorem protocol_reaches_eligibility_witness:
  "write_eligible (model_run (protocol sample_plan @
       [(sample_plan, Prepare 17), (sample_plan, Prepare 13),
        (sample_plan, Activate 17), (sample_plan, Activate 13)]) (model_new sample_baseline))
     sample_plan 17 True"
proof -
  have h: "validate_plan (model_new sample_baseline) sample_plan = Inr ()"
    by code_simp
  have w: "who sample_plan I1 = 13" "who sample_plan I0 = 17" "p_candidate sample_plan = 17"
    by (simp_all add: who_def sample_defs)
  show ?thesis using protocol_reaches_eligibility [OF h] unfolding Let_def w by blast
qed

end
