(* ===== verification/Recovery_Grant.thy ===== *)
theory Recovery_Grant
  imports Jws Recovery_Model
begin

text \<open>
  The recovery grant verifier, \<^verbatim>\<open>replication/recovery/src/grant.rs\<close>: what a signed token must say
  before it authorizes a primary replacement, and the check of an unsigned draft that the issuer
  runs before it signs. The lemmas say exactly what an accepted grant implies and that an accepted
  draft verifies once it carries a valid signature.
\<close>

section \<open>Data\<close>

record Reservation =
  rs_plan :: Plan
  rs_grant_id :: Id
  rs_fencing_ref :: Id

record Context =
  cx_profile :: Profile
  cx_keys :: "(string \<times> bytes) list"
  cx_now :: u64
  cx_max_lifetime :: u64
  cx_install_id :: string
  cx_region :: string
  cx_reservation :: "Reservation option"
  cx_fencing_confirmed :: bool

record Claims =
  g_version :: u32
  g_iss :: string
  g_aud :: string
  g_action :: string
  g_install_id :: string
  g_region :: string
  g_grant_id :: Id
  g_iat :: u64
  g_nbf :: u64
  g_exp :: u64
  g_plan :: Plan
  g_fencing_ref :: Id

record VerifiedGrant =
  vg_plan :: Plan
  vg_grant_id :: Id

text \<open>The libraries, with the JSON decoding of the grant's claims.\<close>

record grant_env = crypto +
  grant_claims_json :: "bytes \<Rightarrow> Claims option"

section \<open>Operations\<close>

definition trusted_key :: "'x crypto_scheme \<Rightarrow> Context \<Rightarrow> string \<Rightarrow> bytes res" where
  "trusted_key E ctx h =
     and_then (profile_validate (cx_profile ctx)) (\<lambda>_.
       header_key E (cx_keys ctx) (\<lambda>typ. typ = pr_token_type (cx_profile ctx)) h)"

definition validate_claims :: "'x grant_env_scheme \<Rightarrow> Context \<Rightarrow> string \<Rightarrow> Claims res" where
  "validate_claims E ctx p =
     and_then (decode_segment E p) (\<lambda>raw.
     and_then (ok_or (grant_claims_json E raw) ''claim schema'') (\<lambda>grant.
       if g_version grant \<noteq> 1
         \<or> g_iss grant \<noteq> pr_issuer (cx_profile ctx)
         \<or> g_aud grant \<noteq> pr_audience (cx_profile ctx)
         \<or> g_action grant \<noteq> ''replace_primary''
       then Inl (Refused ''claim purpose'')
       else if cx_install_id ctx = []
         \<or> cx_region ctx = []
         \<or> g_install_id grant \<noteq> cx_install_id ctx
         \<or> g_region grant \<noteq> cx_region ctx
       then Inl (Refused ''scope'')
       else
         and_then (ok_or (checked_sub (g_exp grant) (g_iat grant)) ''time order'') (\<lambda>lifetime.
           if lifetime = 0
             \<or> lifetime > cx_max_lifetime ctx
             \<or> g_iat grant > g_nbf grant
             \<or> g_nbf grant > cx_now ctx
             \<or> cx_now ctx \<ge> g_exp grant
           then Inl (Refused ''time window'')
           else
             and_then (ok_or (cx_reservation ctx) ''authority unavailable'') (\<lambda>reserved.
               if \<not> cx_fencing_confirmed ctx
                 \<or> g_fencing_ref grant = 0
                 \<or> g_grant_id grant = 0
                 \<or> g_plan grant \<noteq> rs_plan reserved
                 \<or> g_grant_id grant \<noteq> rs_grant_id reserved
                 \<or> g_fencing_ref grant \<noteq> rs_fencing_ref reserved
               then Inl (Refused ''authority binding'')
               else
                 and_then (fst (model_step (g_plan grant) Authorize
                             (model_new (p_baseline (g_plan grant))))) (\<lambda>_.
                   Inr grant)))))"

definition grant_verify :: "'x grant_env_scheme \<Rightarrow> Context \<Rightarrow> string \<Rightarrow> VerifiedGrant res" where
  "grant_verify E ctx token =
     and_then (compact_parts (16 * 1024) token) (\<lambda>(h, p, s).
     and_then (trusted_key E ctx h) (\<lambda>key.
     and_then (check_signature E key token (h, p, s)) (\<lambda>_.
     and_then (validate_claims E ctx p) (\<lambda>grant.
       Inr \<lparr>vg_plan = g_plan grant, vg_grant_id = g_grant_id grant\<rparr>))))"

text \<open>\<open>str::split_once\<close>.\<close>

fun split_once :: "char \<Rightarrow> string \<Rightarrow> (string \<times> string) option" where
  "split_once sep [] = None"
| "split_once sep (c # cs) =
     (if c = sep then Some ([], cs)
      else map_option (\<lambda>(a, b). (c # a, b)) (split_once sep cs))"

definition validate_draft :: "'x grant_env_scheme \<Rightarrow> Context \<Rightarrow> string \<Rightarrow> unit res" where
  "validate_draft E ctx input =
     (if len input > 16 * 1024 - 87 then Inl (Refused ''draft limit'')
      else
        and_then (ok_or (split_once CHR ''.'' input) ''draft shape'') (\<lambda>(h, p).
          if len h > 1024 \<or> CHR ''.'' \<in> set p then Inl (Refused ''draft shape'')
          else
            and_then (trusted_key E ctx h) (\<lambda>_.
            and_then (validate_claims E ctx p) (\<lambda>_. Inr ()))))"

section \<open>Helper lemmas\<close>

lemma split_once_Some:
  "split_once sep s = Some (a, b) \<Longrightarrow> s = a @ sep # b \<and> sep \<notin> set a"
  by (induction s arbitrary: a) (auto split: if_splits)

lemma model_authorize_fresh:
  "fst (model_step p Authorize (model_new b)) = Inr u \<longleftrightarrow> validate_plan (model_new b) p = Inr ()"
  by (cases "validate_plan (model_new b) p") (simp_all add: model_step_def)

lemma validate_plan_fresh:
  "validate_plan (model_new b) p = Inr () \<longleftrightarrow>
     baseline_validate b = Inr () \<and> p_baseline p = b
     \<and> unat (p_revision p) = Suc (unat (b_revision b))
     \<and> p_recovery_id p \<noteq> 0 \<and> p_candidate p \<noteq> 0
     \<and> p_candidate p \<noteq> b_old_primary b \<and> p_candidate p \<noteq> b_survivor b"
  by (auto simp: validate_plan_def model_new_def and_then_Inr checked_add_one)

lemma validate_claims_Inr:
  "validate_claims E ctx p = Inr grant \<longleftrightarrow>
     (\<exists>raw reserved. decode_segment E p = Inr raw \<and> grant_claims_json E raw = Some grant
       \<and> g_version grant = 1 \<and> g_iss grant = pr_issuer (cx_profile ctx)
       \<and> g_aud grant = pr_audience (cx_profile ctx) \<and> g_action grant = ''replace_primary''
       \<and> cx_install_id ctx \<noteq> [] \<and> cx_region ctx \<noteq> []
       \<and> g_install_id grant = cx_install_id ctx \<and> g_region grant = cx_region ctx
       \<and> g_iat grant < g_exp grant \<and> g_exp grant - g_iat grant \<le> cx_max_lifetime ctx
       \<and> g_iat grant \<le> g_nbf grant \<and> g_nbf grant \<le> cx_now ctx \<and> cx_now ctx < g_exp grant
       \<and> cx_reservation ctx = Some reserved \<and> cx_fencing_confirmed ctx
       \<and> g_fencing_ref grant \<noteq> 0 \<and> g_grant_id grant \<noteq> 0
       \<and> g_plan grant = rs_plan reserved \<and> g_grant_id grant = rs_grant_id reserved
       \<and> g_fencing_ref grant = rs_fencing_ref reserved
       \<and> validate_plan (model_new (p_baseline (g_plan grant))) (g_plan grant) = Inr ())"
  (is "?L \<longleftrightarrow> ?R")
proof
  assume ?L
  then show ?R
    by (auto simp: validate_claims_def and_then_Inr ok_or_Inr checked_sub_def
        model_authorize_fresh not_less not_le order.strict_iff_order split: if_splits)
next
  assume ?R
  then obtain raw reserved where r: "decode_segment E p = Inr raw"
    "grant_claims_json E raw = Some grant" "cx_reservation ctx = Some reserved"
    and m: "fst (model_step (g_plan grant) Authorize (model_new (p_baseline (g_plan grant)))) = Inr ()"
    by (auto simp: model_authorize_fresh)
  from \<open>?R\<close> r have order: "g_iat grant \<le> g_exp grant" "g_exp grant \<noteq> g_iat grant"
    "\<not> cx_max_lifetime ctx < g_exp grant - g_iat grant" "\<not> g_nbf grant < g_iat grant"
    "\<not> cx_now ctx < g_nbf grant" "\<not> g_exp grant \<le> cx_now ctx"
    by (auto simp: not_less not_le)
  from \<open>?R\<close> r m order show ?L
    by (auto simp: validate_claims_def checked_sub_def)
qed

lemma grant_verify_Inr:
  "grant_verify E ctx token = Inr g \<longleftrightarrow>
     (\<exists>h p s key grant. compact_parts (16 * 1024) token = Inr (h, p, s)
        \<and> trusted_key E ctx h = Inr key
        \<and> check_signature E key token (h, p, s) = Inr ()
        \<and> validate_claims E ctx p = Inr grant
        \<and> g = \<lparr>vg_plan = g_plan grant, vg_grant_id = g_grant_id grant\<rparr>)"
  by (auto simp: grant_verify_def and_then_Inr)

section \<open>A concrete issuer\<close>

text \<open>
  A codec and a signature scheme simple enough to evaluate: the segment of a 64-byte signature has
  86 characters, as unpadded base64 gives it, every other segment is its own bytes.
\<close>

definition sample_header :: Header where
  "sample_header = \<lparr>h_alg = ''ES256'', h_kid = ''k1'', h_typ = ''vesta-recovery+jwt''\<rparr>"

definition sample_claims :: Claims where
  "sample_claims =
     \<lparr>g_version = 1, g_iss = ''authority'', g_aud = ''vesta'', g_action = ''replace_primary'',
      g_install_id = ''inst'', g_region = ''eu'', g_grant_id = 21, g_iat = 100, g_nbf = 100,
      g_exp = 200, g_plan = sample_plan, g_fencing_ref = 22\<rparr>"

definition sample_grant_env :: grant_env where
  "sample_grant_env =
     \<lparr>b64_decode = (\<lambda>s. Some (if len s = 86 then replicate 64 7 else as_bytes s)),
      b64_encode = (\<lambda>b. if len b = 64 then replicate 86 CHR ''S''
                        else map (\<lambda>x. char_of (unat x)) b),
      sha256 = (\<lambda>b. word_of_nat (Suc (length b))),
      es256 = (\<lambda>key message sig. key = [1, 2] \<and> sig = replicate 64 7),
      header_json = (\<lambda>b. if b = as_bytes ''H'' then Some sample_header else None),
      grant_claims_json = (\<lambda>b. if b = as_bytes ''C'' then Some sample_claims else None)\<rparr>"

definition sample_context :: Context where
  "sample_context =
     \<lparr>cx_profile = \<lparr>pr_issuer = ''authority'', pr_audience = ''vesta'',
                     pr_token_type = ''vesta-recovery+jwt''\<rparr>,
      cx_keys = [(''k0'', [9]), (''k1'', [1, 2])], cx_now = 150, cx_max_lifetime = 300,
      cx_install_id = ''inst'', cx_region = ''eu'',
      cx_reservation = Some \<lparr>rs_plan = sample_plan, rs_grant_id = 21, rs_fencing_ref = 22\<rparr>,
      cx_fencing_confirmed = True\<rparr>"

definition sample_signature :: string where
  "sample_signature = replicate 86 CHR ''S''"

section \<open>Properties\<close>

text \<open>
  C4. An accepted grant is authentic, current and bound. If the verifier accepts a token, the token
  is three segments; a key that is trusted under exactly one entry of its name signed the first
  two, in a header of the profile's type; the payload was issued for this profile, installation and
  region; the trusted clock lies in its validity window and its lifetime within the configured
  maximum; the authority's reservation is present with this very plan, grant id and nonzero fencing
  reference, fencing is confirmed; and the plan extends its baseline by exactly one revision.
\<close>

theorem grant_verify_sound:
  assumes "grant_verify E ctx token = Inr g"
  shows "\<exists>h p s header raw raw' sig key reserved grant.
      token = h @ ''.'' @ p @ ''.'' @ s
    \<and> header_json E raw = Some header \<and> b64_decode E h = Some raw
    \<and> h_alg header = ''ES256'' \<and> h_typ header = pr_token_type (cx_profile ctx)
    \<and> filter (\<lambda>k. fst k = h_kid header) (cx_keys ctx) = [(h_kid header, key)]
    \<and> b64_decode E s = Some sig \<and> len sig = 64 \<and> es256 E key (as_bytes (h @ ''.'' @ p)) sig
    \<and> b64_decode E p = Some raw' \<and> grant_claims_json E raw' = Some grant
    \<and> g_action grant = ''replace_primary''
    \<and> g_iss grant = pr_issuer (cx_profile ctx) \<and> g_aud grant = pr_audience (cx_profile ctx)
    \<and> g_install_id grant = cx_install_id ctx \<and> g_region grant = cx_region ctx
    \<and> g_nbf grant \<le> cx_now ctx \<and> cx_now ctx < g_exp grant
    \<and> unat (g_exp grant) - unat (g_iat grant) \<le> unat (cx_max_lifetime ctx)
    \<and> cx_reservation ctx = Some reserved \<and> cx_fencing_confirmed ctx
    \<and> rs_fencing_ref reserved \<noteq> 0 \<and> rs_fencing_ref reserved = g_fencing_ref grant
    \<and> vg_plan g = rs_plan reserved \<and> vg_grant_id g = rs_grant_id reserved
    \<and> baseline_validate (p_baseline (vg_plan g)) = Inr ()
    \<and> unat (p_revision (vg_plan g)) = Suc (unat (b_revision (p_baseline (vg_plan g))))"
proof -
  obtain h p s key grant where cp: "compact_parts (16 * 1024) token = Inr (h, p, s)"
    and key: "trusted_key E ctx h = Inr key"
    and sig: "check_signature E key token (h, p, s) = Inr ()"
    and claims: "validate_claims E ctx p = Inr grant"
    and g: "g = \<lparr>vg_plan = g_plan grant, vg_grant_id = g_grant_id grant\<rparr>"
    using assms by (auto simp: grant_verify_Inr)
  obtain raw header where key': "header_json E raw = Some header" "b64_decode E h = Some raw"
    "h_alg header = ''ES256''" "h_typ header = pr_token_type (cx_profile ctx)"
    "filter (\<lambda>k. fst k = h_kid header) (cx_keys ctx) = [(h_kid header, key)]"
    using key by (auto simp: trusted_key_def and_then_Inr header_key_Inr unique_key_Inr
        decode_segment_Inr)
  obtain sg where sig': "b64_decode E s = Some sg" "len sg = 64"
    "es256 E key (as_bytes (h @ ''.'' @ p)) sg"
    using sig unfolding check_signature_Inr [OF cp] by (auto simp: decode_segment_Inr)
  obtain reserved raw' where claims': "b64_decode E p = Some raw'" "grant_claims_json E raw' = Some grant"
    "g_action grant = ''replace_primary''"
    "g_iss grant = pr_issuer (cx_profile ctx)" "g_aud grant = pr_audience (cx_profile ctx)"
    "g_install_id grant = cx_install_id ctx" "g_region grant = cx_region ctx"
    "g_nbf grant \<le> cx_now ctx" "cx_now ctx < g_exp grant"
    and resv: "cx_reservation ctx = Some reserved" "cx_fencing_confirmed ctx"
    "g_fencing_ref grant \<noteq> 0" "g_fencing_ref grant = rs_fencing_ref reserved"
    "g_plan grant = rs_plan reserved" "g_grant_id grant = rs_grant_id reserved"
    and plan: "validate_plan (model_new (p_baseline (g_plan grant))) (g_plan grant) = Inr ()"
    and lt: "g_iat grant < g_exp grant" "g_exp grant - g_iat grant \<le> cx_max_lifetime ctx"
    using claims unfolding validate_claims_Inr decode_segment_Inr
    by (elim exE conjE) (rule that; assumption)
  have life: "unat (g_exp grant) - unat (g_iat grant) \<le> unat (cx_max_lifetime ctx)"
    using lt(2) order.strict_implies_order [OF lt(1)] by (simp add: word_le_nat_alt unat_sub)
  have resv': "cx_reservation ctx = Some reserved" "cx_fencing_confirmed ctx"
    "rs_fencing_ref reserved \<noteq> 0" "rs_fencing_ref reserved = g_fencing_ref grant"
    "vg_plan g = rs_plan reserved" "vg_grant_id g = rs_grant_id reserved"
    using resv by (simp_all add: g)
  have plan': "baseline_validate (p_baseline (vg_plan g)) = Inr ()"
    "unat (p_revision (vg_plan g)) = Suc (unat (b_revision (p_baseline (vg_plan g))))"
    using plan by (simp_all add: validate_plan_fresh g)
  show ?thesis
    by (rule exI [of _ h], rule exI [of _ p], rule exI [of _ s], rule exI [of _ header],
        rule exI [of _ raw], rule exI [of _ raw'], rule exI [of _ sg], rule exI [of _ key], rule exI [of _ reserved],
        rule exI [of _ grant])
       (intro conjI compact_parts_token(1) [OF cp] key' sig' claims' life resv' plan')
qed

theorem grant_verify_sound_witness:
  "grant_verify sample_grant_env sample_context (''H.C.'' @ sample_signature)
     = Inr \<lparr>vg_plan = sample_plan, vg_grant_id = 21\<rparr>
   \<and> unat (p_revision sample_plan) = Suc (unat (b_revision (p_baseline sample_plan)))"
proof -
  have h: "grant_verify sample_grant_env sample_context (''H.C.'' @ sample_signature)
      = Inr \<lparr>vg_plan = sample_plan, vg_grant_id = 21\<rparr>"
    by code_simp
  with grant_verify_sound [OF h] show ?thesis by auto
qed

text \<open>
  C5. A validated draft will verify. If the issuer's draft check accepts \<open>header.payload\<close> and the
  authority then appends a valid signature whose segment has the 86 characters that unpadded
  base64 gives 64 bytes, the resulting token verifies in the same context: it exceeds no limit
  and no further check can refuse it.
\<close>

theorem accepted_draft_verifies:
  assumes draft: "validate_draft E ctx input = Inr ()"
    and canonical: "b64_decode E s = Some sig" "b64_encode E sig = s"
    and shape: "len s = 86" "CHR ''.'' \<notin> set s" "len sig = 64"
    and signed: "\<forall>h p key. split_once CHR ''.'' input = Some (h, p) \<and> trusted_key E ctx h = Inr key
      \<longrightarrow> es256 E key (as_bytes input) sig"
  shows "\<exists>g. grant_verify E ctx (input @ ''.'' @ s) = Inr g"
proof -
  obtain h p key grant where input: "split_once CHR ''.'' input = Some (h, p)"
    and len: "len input \<le> 16 * 1024 - 87" "len h \<le> 1024" "CHR ''.'' \<notin> set p"
    and key: "trusted_key E ctx h = Inr key" and claims: "validate_claims E ctx p = Inr grant"
    using draft by (auto simp: validate_draft_def and_then_Inr ok_or_Inr split: if_splits)
  have ih: "input = h @ ''.'' @ p" "CHR ''.'' \<notin> set h"
    using split_once_Some [OF input] by simp_all
  have cp: "compact_parts (16 * 1024) (input @ ''.'' @ s) = Inr (h, p, s)"
    using split_on_three [OF ih(2) len(3) shape(2)] len shape
    by (simp add: compact_parts_Inr ih(1))
  have "check_signature E key (input @ ''.'' @ s) (h, p, s) = Inr ()"
    unfolding check_signature_Inr [OF cp]
    using canonical shape signed key input ih by (auto simp: decode_segment_Inr)
  with cp key claims show ?thesis by (auto simp: grant_verify_Inr)
qed
theorem accepted_draft_verifies_witness:
  "\<exists>g. grant_verify sample_grant_env sample_context (''H.C'' @ ''.'' @ sample_signature) = Inr g"
proof (rule accepted_draft_verifies [where sig = "replicate 64 7"])
  show "validate_draft sample_grant_env sample_context ''H.C'' = Inr ()"
    by code_simp
  show "b64_decode sample_grant_env sample_signature = Some (replicate 64 7)"
    "b64_encode sample_grant_env (replicate 64 7) = sample_signature"
    "len sample_signature = 86" "CHR ''.'' \<notin> set sample_signature"
    "len (replicate 64 (7 :: u8)) = 64"
    by (simp_all add: sample_grant_env_def sample_signature_def)
  show "\<forall>h p key. split_once CHR ''.'' ''H.C'' = Some (h, p)
      \<and> trusted_key sample_grant_env sample_context h = Inr key \<longrightarrow>
      es256 sample_grant_env key (as_bytes ''H.C'') (replicate 64 7)"
    by (auto simp: trusted_key_def header_key_Inr sample_grant_env_def sample_context_def
        sample_header_def unique_key_def and_then_Inr split: if_splits)
qed

end
