(* ===== verification/One_Way.thy ===== *)
theory One_Way
  imports Vesta_Prelude
begin

text \<open>
  The contract that the recovery crate's three journals share. A decision is taken once; each of
  the two participants acknowledges it; a completion is recorded once both have; an authority may
  cancel it while it is not completed. The abstract life of one decision is a small state machine,
  \<open>advances\<close>, and the locale \<open>one_way\<close> collects what follows for every run of a journal whose
  operations refine it. The decision journal (\<open>Recovery_Decision\<close>), the transition journal at each
  revision and the loss-successor journal (both in \<open>Transition_Runs\<close>) are interpretations.
\<close>

section \<open>The life of a decision\<close>

datatype 'k life =
    Vacant
  | Open 'k "bool \<times> bool"
  | Done 'k Id
  | Cancelled

inductive advances :: "'k life \<Rightarrow> 'k life \<Rightarrow> bool" where
  stay: "advances v v"
| decide: "advances Vacant (Open k (False, False))"
| acknowledge: "advances (Open k a) (Open k (put a i True))"
| complete: "c \<noteq> 0 \<Longrightarrow> advances (Open k (True, True)) (Done k c)"
| cancel: "advances (Open k a) Cancelled"
| cancel_vacant: "advances Vacant Cancelled"

inductive_cases advances_DoneE: "advances (Done k c) v"
inductive_cases advances_CancelledE: "advances Cancelled v"
inductive_cases advances_OpenE: "advances (Open k a) v"
inductive_cases advances_to_DoneE: "advances v (Done k c)"

declare advances.intros [simp]

lemma put_True_mono: "at a j \<Longrightarrow> at (put a i True) j"
  by (cases a; cases i; cases j) simp_all

text \<open>What an open decision can still become.\<close>

fun within :: "'k life \<Rightarrow> 'k life \<Rightarrow> bool" where
  "within (Open k a) (Open k' a') = (k' = k \<and> (\<forall>j. at a j \<longrightarrow> at a' j))"
| "within (Open k a) (Done k' c) = (k' = k)"
| "within (Open k a) Cancelled = True"
| "within (Open k a) Vacant = False"
| "within Vacant v = True"
| "within (Done k c) v = (v = Done k c)"
| "within Cancelled v = (v = Cancelled)"

lemma within_refl [simp]: "within v v"
  by (cases v) simp_all

lemma advances_within: "advances v w \<Longrightarrow> within v w"
  by (induction rule: advances.induct) (auto simp: put_True_mono)

lemma within_trans: "within u v \<Longrightarrow> within v w \<Longrightarrow> within u w"
  by (cases u; cases v; cases w) auto

section \<open>Journals that refine it\<close>

text \<open>
  \<open>view e d\<close> is what the journal \<open>d\<close> says about the decision under the environment \<open>e\<close>, or \<open>None\<close>
  when it does not read at all. The two laws: an operation on a readable journal leaves a journal
  whose view, if it reads, has advanced; and no operation makes an unreadable journal readable.
\<close>

locale one_way =
  fixes lawful :: "'e \<Rightarrow> bool"
    and view :: "'e \<Rightarrow> 'd \<Rightarrow> 'k life option"
    and exec :: "'e \<Rightarrow> 'o \<Rightarrow> 'd \<Rightarrow> 'd"
  assumes law_step:
      "lawful e \<Longrightarrow> view e d = Some v \<Longrightarrow> view e (exec e x d) = Some w \<Longrightarrow> advances v w"
    and law_stuck: "lawful e \<Longrightarrow> view e d = None \<Longrightarrow> view e (exec e x d) = None"
begin

definition run :: "'e \<Rightarrow> 'o list \<Rightarrow> 'd \<Rightarrow> 'd" where
  "run e xs d = fold (exec e) xs d"

lemma run_simps [simp]:
  "run e [] d = d"
  "run e (x # xs) d = run e xs (exec e x d)"
  "run e (xs @ ys) d = run e ys (run e xs d)"
  by (simp_all add: run_def)

lemma stuck_run: "lawful e \<Longrightarrow> view e d = None \<Longrightarrow> view e (run e xs d) = None"
  by (induction xs arbitrary: d) (simp_all add: law_stuck)

lemma readable_before:
  "lawful e \<Longrightarrow> view e (run e xs d) = Some w \<Longrightarrow> \<exists>v. view e d = Some v"
  by (cases "view e d") (simp_all add: stuck_run)

lemma run_within:
  "lawful e \<Longrightarrow> view e d = Some v \<Longrightarrow> view e (run e xs d) = Some w \<Longrightarrow> within v w"
proof (induction xs arbitrary: d v)
  case (Cons x xs)
  obtain u where u: "view e (exec e x d) = Some u"
    using Cons.prems readable_before [of e xs "exec e x d"] by auto
  then have "within v u"
    using Cons.prems law_step advances_within by blast
  moreover have "within u w"
    using Cons.IH [OF Cons.prems(1) u] Cons.prems(3) by simp
  ultimately show ?case by (rule within_trans)
qed auto

lemma completed_is_final:
  "lawful e \<Longrightarrow> view e d = Some (Done k c) \<Longrightarrow> view e (run e xs d) = Some w \<Longrightarrow> w = Done k c"
  using run_within by fastforce

lemma cancelled_is_final:
  "lawful e \<Longrightarrow> view e d = Some Cancelled \<Longrightarrow> view e (run e xs d) = Some w \<Longrightarrow> w = Cancelled"
  using run_within by fastforce

lemma completed_was_acknowledged:
  assumes "lawful e" "view e d = Some v" "\<forall>c. v \<noteq> Done k c"
    and "view e (run e xs d) = Some (Done k c)"
  shows "\<exists>ys zs. xs = ys @ zs \<and> view e (run e ys d) = Some (Open k (True, True)) \<and> c \<noteq> 0"
  using assms
proof (induction xs arbitrary: d v)
  case (Cons x xs)
  obtain u where u: "view e (exec e x d) = Some u"
    using Cons.prems readable_before [of e xs "exec e x d"] by auto
  have adv: "advances v u"
    using Cons.prems(1,2) u by (rule law_step)
  show ?case
  proof (cases "\<exists>c'. u = Done k c'")
    case True
    then obtain c' where c': "u = Done k c'" ..
    then have "v = Open k (True, True)" "c' \<noteq> 0"
      using adv Cons.prems(3) by (auto elim: advances_to_DoneE)
    moreover have "c = c'"
      using run_within [OF Cons.prems(1) u, of xs] Cons.prems(4) c' by simp
    ultimately have "x # xs = [] @ (x # xs) \<and> view e (run e [] d) = Some (Open k (True, True)) \<and> c \<noteq> 0"
      using Cons.prems(2) by simp
    then show ?thesis by blast
  next
    case False
    then obtain ys zs where "xs = ys @ zs" "view e (run e ys (exec e x d)) = Some (Open k (True, True))"
      "c \<noteq> 0"
      using Cons.IH [OF Cons.prems(1) u] Cons.prems(4) by auto
    then have "x # xs = (x # ys) @ zs \<and> view e (run e (x # ys) d) = Some (Open k (True, True)) \<and> c \<noteq> 0"
      by simp
    then show ?thesis by blast
  qed
qed simp

end

end
