(* ===== verification/Recovery_Decision.thy ===== *)
theory Recovery_Decision
  imports Recovery_Grant One_Way
begin

text \<open>
  The durable one-plan decision journal, \<^verbatim>\<open>replication/recovery/src/decision.rs\<close>: its scope, its
  requests, the two tables of its database, and every operation as a function from the database to
  a result and the database it leaves. A decision needs a grant that verifies at that moment;
  afterwards it is immutable, its two members acknowledge it, and one completion closes it. The
  journal interprets \<open>one_way\<close>, and the properties say what a first decision had to pass, that
  every accepted write reads back, and that retries converge.
\<close>

section \<open>Data\<close>

record Scope =
  sc_install :: string
  sc_region :: string
  sc_profile :: Profile
  sc_baseline :: Baseline

record Prepared =
  pp_member :: Id
  pp_generation :: Id
  pp_checkpoint :: Id

record Request =
  rq_id :: Id
  rq_plan :: Plan
  rq_prepared :: "Prepared \<times> Prepared"

record Record =
  rec_request :: Request
  rec_token :: string
  rec_grant_id :: Id
  rec_acknowledgements :: "bool \<times> bool"
  rec_completion :: "Id option"

record Status =
  st_request :: "Request option"
  st_acknowledgements :: "bool \<times> bool"
  st_completion :: "Id option"

record CommittedDecision =
  cd_request :: Request
  cd_token_digest :: Id
  cd_grant_id :: Id

text \<open>
  The integrator's policy. Its continuity check runs more than once in an operation and may answer
  differently each time, so it also receives how many of its calls came before.
\<close>

record Policy =
  continuity :: "nat \<Rightarrow> Scope \<Rightarrow> unit res"
  context_of :: "Scope \<Rightarrow> Request \<Rightarrow> Context res"
  prepared :: "Scope \<Rightarrow> Request \<Rightarrow> unit res"
  applied :: "Scope \<Rightarrow> CommittedDecision \<Rightarrow> Prepared \<Rightarrow> unit res"

text \<open>
  The libraries: the grant's, and the JSON texts (of type \<open>'j\<close>) of the scope and the record, with
  their length and their bytes.
\<close>

record 'j decision_env = grant_env +
  dj_len :: "'j \<Rightarrow> int"
  dj_bytes :: "'j \<Rightarrow> bytes"
  scope_to_json :: "Scope \<Rightarrow> 'j option"
  scope_from_json :: "'j \<Rightarrow> Scope option"
  record_to_json :: "Record \<Rightarrow> 'j option"
  record_from_json :: "'j \<Rightarrow> Record option"

text \<open>
  The database: the one row of \<open>recovery_decision_scope\<close> (format and scope) and the row of
  \<open>recovery_decision\<close> (record and digest), if any. A database without the scope row, or without
  the tables, has \<open>dd_scope = None\<close>.
\<close>

record 'j decision_db =
  dd_scope :: "(u32 \<times> 'j) option"
  dd_record :: "('j \<times> Id) option"

section \<open>Operations\<close>

definition MAX_RECORD :: int where
  "MAX_RECORD = 64 * 1024"

definition scope_validate :: "Scope \<Rightarrow> unit res" where
  "scope_validate s =
     and_then (baseline_validate (sc_baseline s)) (\<lambda>_.
     and_then (profile_validate (sc_profile s)) (\<lambda>_.
     ensure (\<not> blank (sc_install s) \<and> \<not> blank (sc_region s) \<and> b_revision (sc_baseline s) < i64_max)
       ''invalid decision journal scope'' (Inr ())))"

definition prepared_bound :: "Plan \<Rightarrow> Prepared \<Rightarrow> Id \<Rightarrow> bool" where
  "prepared_bound plan p member \<longleftrightarrow>
     pp_member p = member \<and> pp_generation p \<noteq> 0 \<and> pp_checkpoint p = b_checkpoint (p_baseline plan)"

definition request_validate :: "Request \<Rightarrow> Baseline \<Rightarrow> unit res" where
  "request_validate q baseline =
     and_then (fst (model_step (rq_plan q) Authorize (model_new baseline))) (\<lambda>_.
     ensure (rq_id q \<noteq> 0) ''zero decision id'' (
     ensure (prepared_bound (rq_plan q) (fst (rq_prepared q)) (p_candidate (rq_plan q)))
       ''prepared binding mismatch'' (
     ensure (prepared_bound (rq_plan q) (snd (rq_prepared q)) (b_survivor (p_baseline (rq_plan q))))
       ''prepared binding mismatch'' (
     ensure (pp_generation (snd (rq_prepared q)) = b_survivor_generation (p_baseline (rq_plan q))
         \<and> pp_generation (fst (rq_prepared q)) \<noteq> pp_generation (snd (rq_prepared q)))
       ''survivor generation mismatch'' (Inr ())))))"

definition decision_read ::
  "('j, 'x) decision_env_scheme \<Rightarrow> Scope \<Rightarrow> 'j decision_db \<Rightarrow> Record option res" where
  "decision_read E scope db =
     (case dd_scope db of
        None \<Rightarrow> Inl Database
      | Some (format, json) \<Rightarrow>
          ensure (format = 2 \<and> dj_len E json \<le> MAX_RECORD) ''decision journal scope/format mismatch'' (
          and_then (decoded (scope_from_json E json)) (\<lambda>stored.
          ensure (stored = scope) ''decision journal scope/format mismatch'' (
            case dd_record db of
              None \<Rightarrow> Inr None
            | Some (json, digest) \<Rightarrow>
                ensure (dj_len E json \<le> MAX_RECORD \<and> digest = sha256 E (dj_bytes E json))
                  ''decision record integrity'' (
                and_then (decoded (record_from_json E json)) (\<lambda>record.
                and_then (request_validate (rec_request record) (sc_baseline scope)) (\<lambda>_.
                ensure (rec_token record \<noteq> []
                    \<and> len (rec_token record) \<le> 16 * 1024
                    \<and> rec_grant_id record \<noteq> 0
                    \<and> is_none_or (rec_completion record)
                         (\<lambda>c. c \<noteq> 0 \<and> rec_acknowledgements record = (True, True)))
                  ''invalid decision history'' (Inr (Some record)))))))))"

definition decision_save ::
  "('j, 'x) decision_env_scheme \<Rightarrow> Record \<Rightarrow> 'j decision_db \<Rightarrow> 'j decision_db res" where
  "decision_save E record db =
     and_then (decoded (record_to_json E record)) (\<lambda>json.
     ensure (dj_len E json \<le> MAX_RECORD) ''decision record limit'' (
       Inr (db\<lparr>dd_record := Some (json, sha256 E (dj_bytes E json))\<rparr>)))"

text \<open>
  \<open>Journal::create\<close> and \<open>Journal::open\<close>: whether the path is taken, and what the encrypted
  container (\<open>Vesta::create\<close>, \<open>Vesta::open\<close>) answers, are arguments.
\<close>

definition decision_create ::
  "('j, 'x) decision_env_scheme \<Rightarrow> bool \<Rightarrow> unit res \<Rightarrow> string \<Rightarrow> Scope \<Rightarrow> 'j decision_db res" where
  "decision_create E path_exists created passphrase scope =
     and_then (scope_validate scope) (\<lambda>_.
     ensure (\<not> path_exists \<and> passphrase \<noteq> []) ''invalid decision journal initialization'' (
     and_then (decoded (scope_to_json E scope)) (\<lambda>json.
     ensure (dj_len E json \<le> MAX_RECORD) ''scope limit'' (
     and_then created (\<lambda>_. Inr \<lparr>dd_scope = Some (2, json), dd_record = None\<rparr>)))))"

definition decision_status ::
  "('j, 'x) decision_env_scheme \<Rightarrow> Scope \<Rightarrow> 'j decision_db \<Rightarrow> Status res" where
  "decision_status E scope db =
     and_then (decision_read E scope db) (\<lambda>r.
       Inr \<lparr>st_request = map_option rec_request r,
            st_acknowledgements = (case r of None \<Rightarrow> (False, False) | Some r \<Rightarrow> rec_acknowledgements r),
            st_completion = (case r of None \<Rightarrow> None | Some r \<Rightarrow> rec_completion r)\<rparr>)"

definition decision_open ::
  "('j, 'x) decision_env_scheme \<Rightarrow> bool \<Rightarrow> 'j decision_db res \<Rightarrow> string \<Rightarrow> Scope \<Rightarrow> 'j decision_db res" where
  "decision_open E is_file opened passphrase expected =
     and_then (scope_validate expected) (\<lambda>_.
     ensure (is_file \<and> passphrase \<noteq> []) ''decision journal absent'' (
     and_then opened (\<lambda>db.
     and_then (decision_status E expected db) (\<lambda>_. Inr db))))"

definition decide_fresh ::
  "('j, 'x) decision_env_scheme \<Rightarrow> Policy \<Rightarrow> Scope \<Rightarrow> Request \<Rightarrow> string \<Rightarrow> Record res" where
  "decide_fresh E policy scope request token =
     and_then (context_of policy scope request) (\<lambda>ctx.
     ensure (cx_install_id ctx = sc_install scope \<and> cx_region ctx = sc_region scope
         \<and> cx_profile ctx = sc_profile scope) ''policy scope mismatch'' (
     and_then (grant_verify E ctx token) (\<lambda>grant.
     ensure (vg_plan grant = rq_plan request) ''decision/grant mismatch'' (
     and_then (prepared policy scope request) (\<lambda>_.
     and_then (continuity policy 1 scope) (\<lambda>_.
       Inr \<lparr>rec_request = request, rec_token = token, rec_grant_id = vg_grant_id grant,
            rec_acknowledgements = (False, False), rec_completion = None\<rparr>))))))"

definition decision_decide ::
  "('j, 'x) decision_env_scheme \<Rightarrow> Policy \<Rightarrow> Scope \<Rightarrow> Request \<Rightarrow> string \<Rightarrow> 'j decision_db
     \<Rightarrow> unit res \<times> 'j decision_db" where
  "decision_decide E policy scope request token db = transact db (
     and_then (request_validate request (sc_baseline scope)) (\<lambda>_.
     ensure (len token \<le> 16 * 1024) ''token limit'' (
     and_then (continuity policy 0 scope) (\<lambda>_.
     and_then (decision_read E scope db) (\<lambda>old.
       case old of
         Some record \<Rightarrow>
           Inr (ensure (rec_request record = request \<and> rec_token record = token)
                  ''immutable decision conflict'' (Inr ()), db)
       | None \<Rightarrow>
           and_then (decide_fresh E policy scope request token) (\<lambda>record.
           and_then (decision_save E record db) (\<lambda>db'. Inr (Inr (), db'))))))))"

definition decision_fetch ::
  "('j, 'x) decision_env_scheme \<Rightarrow> Policy \<Rightarrow> Scope \<Rightarrow> Request \<Rightarrow> 'j decision_db \<Rightarrow> CommittedDecision res" where
  "decision_fetch E policy scope request db =
     and_then (continuity policy 0 scope) (\<lambda>_.
     and_then (decision_read E scope db) (\<lambda>old.
     and_then (ok_or old ''decision missing'') (\<lambda>r.
     ensure (rec_request r = request \<and> rec_completion r = None) ''decision unavailable for delivery'' (
       Inr \<lparr>cd_request = rec_request r, cd_token_digest = sha256 E (as_bytes (rec_token r)),
            cd_grant_id = rec_grant_id r\<rparr>))))"

definition decision_acknowledge ::
  "('j, 'x) decision_env_scheme \<Rightarrow> Policy \<Rightarrow> Scope \<Rightarrow> CommittedDecision \<Rightarrow> Prepared \<Rightarrow> 'j decision_db
     \<Rightarrow> unit res \<times> 'j decision_db" where
  "decision_acknowledge E policy scope decision member db = transact db (
     and_then (continuity policy 0 scope) (\<lambda>_.
     and_then (decision_read E scope db) (\<lambda>old.
     and_then (ok_or old ''decision missing'') (\<lambda>r.
     ensure (rec_request r = cd_request decision \<and> rec_grant_id r = cd_grant_id decision
         \<and> sha256 E (as_bytes (rec_token r)) = cd_token_digest decision) ''ack decision mismatch'' (
     and_then (ok_or (position (\<lambda>p. p = member) (rq_prepared (rec_request r))) ''ack member mismatch'') (\<lambda>index.
       if at (rec_acknowledgements r) index then Inr (Inr (), db)
       else
         and_then (applied policy scope decision member) (\<lambda>_.
         and_then (continuity policy 1 scope) (\<lambda>_.
         and_then (decision_save E
             (r\<lparr>rec_acknowledgements := put (rec_acknowledgements r) index True\<rparr>) db) (\<lambda>db'.
           Inr (Inr (), db'))))))))))"

definition decision_complete ::
  "('j, 'x) decision_env_scheme \<Rightarrow> Policy \<Rightarrow> Scope \<Rightarrow> Request \<Rightarrow> Id \<Rightarrow> 'j decision_db
     \<Rightarrow> unit res \<times> 'j decision_db" where
  "decision_complete E policy scope request c db = transact db (
     ensure (c \<noteq> 0) ''zero completion id'' (
     and_then (continuity policy 0 scope) (\<lambda>_.
     and_then (decision_read E scope db) (\<lambda>old.
     and_then (ok_or old ''decision missing'') (\<lambda>r.
     ensure (rec_request r = request \<and> rec_acknowledgements r = (True, True))
       ''completion evidence missing'' (
       case rec_completion r of
         Some previous \<Rightarrow> Inr (ensure (previous = c) ''immutable completion conflict'' (Inr ()), db)
       | None \<Rightarrow>
           and_then (decision_save E (r\<lparr>rec_completion := Some c\<rparr>) db) (\<lambda>db'. Inr (Inr (), db'))))))))"

text \<open>One call on the journal, with the policy in force during it.\<close>

datatype decision_op =
    DecideOp Request string
  | AcknowledgeOp CommittedDecision Prepared
  | CompleteOp Request Id

fun decision_call ::
  "('j, 'x) decision_env_scheme \<Rightarrow> Scope \<Rightarrow> Policy \<times> decision_op \<Rightarrow> 'j decision_db
     \<Rightarrow> unit res \<times> 'j decision_db" where
  "decision_call E scope (policy, DecideOp request token) db =
     decision_decide E policy scope request token db"
| "decision_call E scope (policy, AcknowledgeOp decision member) db =
     decision_acknowledge E policy scope decision member db"
| "decision_call E scope (policy, CompleteOp request c) db =
     decision_complete E policy scope request c db"

section \<open>Reading what was written\<close>

text \<open>The documented behaviour of \<open>serde_json\<close> the journal relies on: what it wrote it reads back.\<close>

definition decision_lawful :: "('j, 'x) decision_env_scheme \<Rightarrow> bool" where
  "decision_lawful E \<longleftrightarrow>
     (\<forall>s j. scope_to_json E s = Some j \<longrightarrow> scope_from_json E j = Some s)
   \<and> (\<forall>r j. record_to_json E r = Some j \<longrightarrow> record_from_json E j = Some r)"

definition record_ok :: "Scope \<Rightarrow> Record \<Rightarrow> bool" where
  "record_ok scope r \<longleftrightarrow>
     request_validate (rec_request r) (sc_baseline scope) = Inr ()
   \<and> rec_token r \<noteq> [] \<and> len (rec_token r) \<le> 16 * 1024 \<and> rec_grant_id r \<noteq> 0
   \<and> is_none_or (rec_completion r) (\<lambda>c. c \<noteq> 0 \<and> rec_acknowledgements r = (True, True))"

lemma decision_read_ok: "decision_read E scope db = Inr (Some r) \<Longrightarrow> record_ok scope r"
  by (auto simp: decision_read_def record_ok_def res_simps split: option.splits)

lemma decision_read_saved:
  assumes "decision_lawful E" "decision_read E scope db = Inr old"
    and "decision_save E r db = Inr db'" "record_ok scope r"
  shows "decision_read E scope db' = Inr (Some r)"
  using assms
  by (auto simp: decision_read_def decision_save_def record_ok_def decision_lawful_def res_simps
      split: option.splits)

lemma grant_verify_token:
  assumes "grant_verify E ctx token = Inr g"
  shows "token \<noteq> []" "vg_grant_id g \<noteq> 0"
proof -
  obtain h p s key grant where g: "compact_parts (16 * 1024) token = Inr (h, p, s)"
    "validate_claims E ctx p = Inr grant" "vg_grant_id g = g_grant_id grant"
    using assms by (auto simp: grant_verify_Inr)
  show "token \<noteq> []" using compact_parts_token(1) [OF g(1)] by simp
  show "vg_grant_id g \<noteq> 0" using g(2,3) by (auto simp: validate_claims_Inr)
qed

lemma decide_fresh_Inr:
  "decide_fresh E policy scope request token = Inr r \<longleftrightarrow>
     (\<exists>ctx grant. context_of policy scope request = Inr ctx
       \<and> cx_install_id ctx = sc_install scope \<and> cx_region ctx = sc_region scope
       \<and> cx_profile ctx = sc_profile scope
       \<and> grant_verify E ctx token = Inr grant \<and> vg_plan grant = rq_plan request
       \<and> prepared policy scope request = Inr () \<and> continuity policy 1 scope = Inr ()
       \<and> r = \<lparr>rec_request = request, rec_token = token, rec_grant_id = vg_grant_id grant,
              rec_acknowledgements = (False, False), rec_completion = None\<rparr>)"
  by (auto simp: decide_fresh_def res_simps)

text \<open>Each operation either leaves the database alone or saves one record.\<close>

lemma decision_decide_effect:
  assumes "decision_decide E policy scope request token db = (v, db')"
  shows "db' = db
    \<or> (v = Inr () \<and> request_validate request (sc_baseline scope) = Inr () \<and> len token \<le> 16 * 1024
       \<and> continuity policy 0 scope = Inr () \<and> decision_read E scope db = Inr None
       \<and> (\<exists>r. decide_fresh E policy scope request token = Inr r \<and> decision_save E r db = Inr db'))"
  using assms
  by (auto simp: decision_decide_def transact_def and_then_def ensure_def
      split: sum.splits option.splits if_splits)

lemma decision_acknowledge_effect:
  assumes "decision_acknowledge E policy scope decision member db = (v, db')"
  shows "db' = db
    \<or> (\<exists>r i. v = Inr () \<and> decision_read E scope db = Inr (Some r) \<and> rec_request r = cd_request decision
       \<and> at (rq_prepared (rec_request r)) i = member \<and> \<not> at (rec_acknowledgements r) i
       \<and> applied policy scope decision member = Inr ()
       \<and> decision_save E (r\<lparr>rec_acknowledgements := put (rec_acknowledgements r) i True\<rparr>) db = Inr db')"
  using assms
  by (auto simp: decision_acknowledge_def transact_def and_then_def ensure_def ok_or_def
      dest!: position_Some split: sum.splits option.splits if_splits)

lemma decision_complete_effect:
  assumes "decision_complete E policy scope request c db = (v, db')"
  shows "db' = db
    \<or> (\<exists>r. v = Inr () \<and> c \<noteq> 0 \<and> decision_read E scope db = Inr (Some r) \<and> rec_request r = request
       \<and> rec_acknowledgements r = (True, True) \<and> rec_completion r = None
       \<and> decision_save E (r\<lparr>rec_completion := Some c\<rparr>) db = Inr db')"
  using assms
  by (auto simp: decision_complete_def transact_def and_then_def ensure_def ok_or_def
      split: sum.splits option.splits if_splits)

section \<open>The journal as a one-way decision\<close>

fun record_life :: "Record option \<Rightarrow> (Request \<times> string \<times> Id) life" where
  "record_life None = Vacant"
| "record_life (Some r) =
     (case rec_completion r of
        None \<Rightarrow> Open (rec_request r, rec_token r, rec_grant_id r) (rec_acknowledgements r)
      | Some c \<Rightarrow> Done (rec_request r, rec_token r, rec_grant_id r) c)"

definition decision_view ::
  "('j, 'x) decision_env_scheme \<Rightarrow> Scope \<Rightarrow> 'j decision_db \<Rightarrow> (Request \<times> string \<times> Id) life option" where
  "decision_view E scope db =
     (case decision_read E scope db of Inl _ \<Rightarrow> None | Inr old \<Rightarrow> Some (record_life old))"

definition decision_run ::
  "('j, 'x) decision_env_scheme \<Rightarrow> Scope \<Rightarrow> (Policy \<times> decision_op) list \<Rightarrow> 'j decision_db
     \<Rightarrow> 'j decision_db" where
  "decision_run E scope calls db = fold (\<lambda>x db. snd (decision_call E scope x db)) calls db"

text \<open>The record an operation saved is the one the journal then reads.\<close>

lemma decision_decide_step:
  assumes "decision_lawful E" "decision_decide E policy scope request token db = (v, db')" "db' \<noteq> db"
  shows "\<exists>r. v = Inr () \<and> request_validate request (sc_baseline scope) = Inr ()
    \<and> decision_read E scope db = Inr None \<and> decide_fresh E policy scope request token = Inr r
    \<and> decision_read E scope db' = Inr (Some r)"
proof -
  obtain r where r: "decide_fresh E policy scope request token = Inr r" "decision_save E r db = Inr db'"
    and q: "request_validate request (sc_baseline scope) = Inr ()" "len token \<le> 16 * 1024"
    and v: "v = Inr ()" "decision_read E scope db = Inr None"
    using decision_decide_effect [OF assms(2)] assms(3) by auto
  have "record_ok scope r"
    using r(1) q by (auto simp: decide_fresh_Inr record_ok_def dest: grant_verify_token)
  then show ?thesis
    using decision_read_saved [OF assms(1) v(2) r(2)] r(1) q v by blast
qed

lemma decision_acknowledge_step:
  assumes "decision_lawful E" "decision_acknowledge E policy scope decision member db = (v, db')"
    and "db' \<noteq> db"
  shows "\<exists>r i. v = Inr () \<and> decision_read E scope db = Inr (Some r) \<and> rec_completion r = None
    \<and> rec_request r = cd_request decision \<and> at (rq_prepared (rec_request r)) i = member
    \<and> applied policy scope decision member = Inr ()
    \<and> decision_read E scope db'
        = Inr (Some (r\<lparr>rec_acknowledgements := put (rec_acknowledgements r) i True\<rparr>))"
proof -
  obtain r i where r: "decision_read E scope db = Inr (Some r)" "\<not> at (rec_acknowledgements r) i"
    "decision_save E (r\<lparr>rec_acknowledgements := put (rec_acknowledgements r) i True\<rparr>) db = Inr db'"
    and m: "v = Inr ()" "rec_request r = cd_request decision" "at (rq_prepared (rec_request r)) i = member"
      "applied policy scope decision member = Inr ()"
    using decision_acknowledge_effect [OF assms(2)] assms(3) by auto
  have none: "rec_completion r = None"
    using decision_read_ok [OF r(1)] r(2)
    by (cases "rec_completion r"; cases i) (simp_all add: record_ok_def)
  then have "record_ok scope (r\<lparr>rec_acknowledgements := put (rec_acknowledgements r) i True\<rparr>)"
    using decision_read_ok [OF r(1)] by (simp add: record_ok_def)
  then show ?thesis
    using decision_read_saved [OF assms(1) r(1,3)] r(1) m none by blast
qed

lemma decision_complete_step:
  assumes "decision_lawful E" "decision_complete E policy scope request c db = (v, db')" "db' \<noteq> db"
  shows "\<exists>r. v = Inr () \<and> c \<noteq> 0 \<and> decision_read E scope db = Inr (Some r) \<and> rec_completion r = None
    \<and> rec_request r = request \<and> rec_acknowledgements r = (True, True)
    \<and> decision_read E scope db' = Inr (Some (r\<lparr>rec_completion := Some c\<rparr>))"
proof -
  obtain r where r: "decision_read E scope db = Inr (Some r)" "c \<noteq> 0"
    "rec_acknowledgements r = (True, True)" "rec_completion r = None" "rec_request r = request"
    and s: "decision_save E (r\<lparr>rec_completion := Some c\<rparr>) db = Inr db'" "v = Inr ()"
    using decision_complete_effect [OF assms(2)] assms(3) by auto
  have "record_ok scope (r\<lparr>rec_completion := Some c\<rparr>)"
    using decision_read_ok [OF r(1)] r(2,3) by (simp add: record_ok_def)
  then show ?thesis
    using decision_read_saved [OF assms(1) r(1) s(1)] r s(2) by blast
qed

lemma decision_save_changes:
  "decision_save E r db = Inr db' \<Longrightarrow> decision_read E scope db = Inr None \<Longrightarrow> db' \<noteq> db"
proof
  assume a: "decision_save E r db = Inr db'" "decision_read E scope db = Inr None" "db' = db"
  from a(1) have "dd_record db' \<noteq> None" by (auto simp: decision_save_def res_simps)
  moreover from a(2) have "dd_record db = None"
    by (auto simp: decision_read_def res_simps split: option.splits)
  ultimately show False using a(3) by simp
qed

lemma decision_decide_success:
  assumes "decision_lawful E" "decision_decide E policy scope request token db = (Inr (), db')"
  shows "\<exists>r. decision_read E scope db' = Inr (Some r) \<and> rec_request r = request \<and> rec_token r = token
    \<and> request_validate request (sc_baseline scope) = Inr () \<and> len token \<le> 16 * 1024"
proof -
  obtain old where q: "request_validate request (sc_baseline scope) = Inr ()" "len token \<le> 16 * 1024"
    and old: "decision_read E scope db = Inr old"
    using assms(2) by (auto simp: decision_decide_def transact_Inr res_simps)
  show ?thesis
  proof (cases old)
    case None
    then obtain r where r: "decide_fresh E policy scope request token = Inr r" "decision_save E r db = Inr db'"
      using assms(2) old by (auto simp: decision_decide_def transact_Inr res_simps)
    then have "db' \<noteq> db"
      using decision_save_changes old None by blast
    then show ?thesis
      using decision_decide_step [OF assms] r(1) q by (auto simp: decide_fresh_Inr)
  next
    case (Some r)
    then show ?thesis
      using assms(2) old q by (auto simp: decision_decide_def transact_Inr res_simps)
  qed
qed

lemmas decision_steps =
  decision_decide_step [OF _ prod.collapse [symmetric]]
  decision_acknowledge_step [OF _ prod.collapse [symmetric]]
  decision_complete_step [OF _ prod.collapse [symmetric]]

lemma decision_call_reads:
  assumes E: "decision_lawful E" and old: "decision_read E scope db = Inr old"
  shows "\<exists>new. decision_read E scope (snd (decision_call E scope x db)) = Inr new
           \<and> advances (record_life old) (record_life new)"
proof (cases "snd (decision_call E scope x db) = db")
  case False
  obtain policy op where x: "x = (policy, op)" by (cases x)
  from False old show ?thesis
    unfolding x
    by (cases op)
       (auto simp: decide_fresh_Inr dest!: decision_steps [OF E])
qed (use old in auto)

lemma decision_call_stuck:
  assumes "decision_read E scope db = Inl e"
  shows "snd (decision_call E scope x db) = db"
proof (cases x)
  case (Pair policy op)
  with assms show ?thesis
    by (cases op) (auto simp: decision_decide_def decision_acknowledge_def decision_complete_def
        transact_def and_then_def ensure_def split: sum.splits)
qed

lemma decision_call_error: "fst (decision_call E scope x db) = Inl e \<Longrightarrow> snd (decision_call E scope x db) = db"
proof (cases x)
  case (Pair policy op)
  moreover assume "fst (decision_call E scope x db) = Inl e"
  ultimately show ?thesis
    using decision_decide_effect [OF prod.collapse [symmetric], of E policy scope _ _ db]
      decision_acknowledge_effect [OF prod.collapse [symmetric], of E policy scope _ _ db]
      decision_complete_effect [OF prod.collapse [symmetric], of E policy scope _ _ db]
    by (cases op) fastforce+
qed

interpretation dj: one_way
  "\<lambda>(E, scope). decision_lawful E"
  "\<lambda>(E, scope). decision_view E scope"
  "\<lambda>(E, scope) x db. snd (decision_call E scope x db)"
proof
  fix e :: "('j, 'x) decision_env_scheme \<times> Scope" and d v x w
  assume "case e of (E, scope) \<Rightarrow> decision_lawful E" "(case e of (E, scope) \<Rightarrow> decision_view E scope) d = Some v"
    "(case e of (E, scope) \<Rightarrow> decision_view E scope)
       ((case e of (E, scope) \<Rightarrow> \<lambda>x db. snd (decision_call E scope x db)) x d) = Some w"
  then show "advances v w"
    using decision_call_reads [of "fst e" "snd e" d _ x]
    by (auto simp: decision_view_def split: prod.splits sum.splits)
next
  fix e :: "('j, 'x) decision_env_scheme \<times> Scope" and d x
  assume "(case e of (E, scope) \<Rightarrow> decision_view E scope) d = None"
  then show "(case e of (E, scope) \<Rightarrow> decision_view E scope)
      ((case e of (E, scope) \<Rightarrow> \<lambda>x db. snd (decision_call E scope x db)) x d) = None"
    by (auto simp: decision_view_def decision_call_stuck split: prod.splits sum.splits)
qed

lemma decision_run_eq: "dj.run (E, scope) calls db = decision_run E scope calls db"
  by (simp add: dj.run_def decision_run_def)

lemma decision_run_reads:
  assumes "decision_lawful E" "decision_read E scope db = Inr old"
  shows "\<exists>new. decision_read E scope (decision_run E scope calls db) = Inr new"
  using assms(2)
proof (induction calls arbitrary: db old)
  case (Cons x calls)
  then show ?case
    using decision_call_reads [OF assms(1) Cons.prems, of x] by (auto simp: decision_run_def)
qed (simp add: decision_run_def)

section \<open>Evidence behind the acknowledgements\<close>

definition evidenced :: "Scope \<Rightarrow> (Policy \<times> decision_op) list \<Rightarrow> Record \<Rightarrow> bool" where
  "evidenced scope calls r \<longleftrightarrow>
     (\<forall>j. at (rec_acknowledgements r) j \<longrightarrow>
        (\<exists>policy decision.
           (policy, AcknowledgeOp decision (at (rq_prepared (rec_request r)) j)) \<in> set calls
         \<and> cd_request decision = rec_request r
         \<and> applied policy scope decision (at (rq_prepared (rec_request r)) j) = Inr ()))"

lemma evidenced_later: "evidenced scope calls r \<Longrightarrow> evidenced scope (calls @ [x]) r"
  unfolding evidenced_def by (metis Un_iff set_append)

lemma evidenced_acknowledge:
  assumes "evidenced scope calls r" "cd_request decision = rec_request r"
    and "applied policy scope decision (at (rq_prepared (rec_request r)) i) = Inr ()"
  shows "evidenced scope (calls @ [(policy, AcknowledgeOp decision (at (rq_prepared (rec_request r)) i))])
           (r\<lparr>rec_acknowledgements := put (rec_acknowledgements r) i True\<rparr>)"
  using assms unfolding evidenced_def by (auto simp: at_put_True) blast+

lemma evidenced_call:
  assumes E: "decision_lawful E" and old: "decision_read E scope db = Inr old"
    and ev: "\<forall>r. old = Some r \<longrightarrow> evidenced scope calls r"
    and new: "decision_read E scope (snd (decision_call E scope x db)) = Inr (Some r')"
  shows "evidenced scope (calls @ [x]) r'"
proof (cases "snd (decision_call E scope x db) = db")
  case True
  with old new ev show ?thesis by (simp add: evidenced_later)
next
  case False
  obtain policy op where x: "x = (policy, op)" by (cases x)
  show ?thesis
  proof (cases op)
    case (DecideOp request token)
    then have "rec_acknowledgements r' = (False, False)"
      using decision_steps(1) [OF E, of policy scope request token db] False new x
      by (auto simp: decide_fresh_Inr)
    then have "\<not> at (rec_acknowledgements r') j" for j by (cases j) simp_all
    then show ?thesis by (simp add: evidenced_def)
  next
    case (AcknowledgeOp decision member)
    then show ?thesis
      using decision_steps(2) [OF E, of policy scope decision member db] False new x old ev
        evidenced_acknowledge by fastforce
  next
    case (CompleteOp request c)
    then show ?thesis
      using decision_steps(3) [OF E, of policy scope request c db] False new x old ev
        evidenced_later [of scope calls _ x] by (fastforce simp: evidenced_def)
  qed
qed

lemma evidenced_run:
  assumes "decision_lawful E" "decision_read E scope db = Inr None"
    and "decision_read E scope (decision_run E scope calls db) = Inr (Some r)"
  shows "evidenced scope calls r"
  using assms(3)
proof (induction calls arbitrary: r rule: rev_induct)
  case Nil
  with assms(2) show ?case by (simp add: decision_run_def)
next
  case (snoc x calls)
  obtain old where old: "decision_read E scope (decision_run E scope calls db) = Inr old"
    using decision_run_reads [OF assms(1,2)] by blast
  show ?case
    using evidenced_call [OF assms(1) old, of calls x r] snoc old by (simp add: decision_run_def)
qed

section \<open>A concrete journal\<close>

text \<open>JSON texts as the documents they spell, over the concrete issuer of the grants.\<close>

datatype decision_doc = ScopeDoc Scope | RecordDoc Record

definition sample_decision_env :: "decision_doc decision_env" where
  "sample_decision_env = grant_env.extend sample_grant_env
     (decision_env.fields (\<lambda>_. 300) (\<lambda>j. case j of ScopeDoc _ \<Rightarrow> [1] | RecordDoc _ \<Rightarrow> [2])
        (\<lambda>s. Some (ScopeDoc s)) (\<lambda>j. case j of ScopeDoc s \<Rightarrow> Some s | RecordDoc _ \<Rightarrow> None)
        (\<lambda>r. Some (RecordDoc r)) (\<lambda>j. case j of ScopeDoc _ \<Rightarrow> None | RecordDoc r \<Rightarrow> Some r))"

definition sample_scope :: Scope where
  "sample_scope = \<lparr>sc_install = ''inst'', sc_region = ''eu'', sc_profile = cx_profile sample_context,
                    sc_baseline = sample_baseline\<rparr>"

definition sample_request :: Request where
  "sample_request = \<lparr>rq_id = 31, rq_plan = sample_plan,
     rq_prepared = (\<lparr>pp_member = 17, pp_generation = 32, pp_checkpoint = 15\<rparr>,
                    \<lparr>pp_member = 13, pp_generation = 14, pp_checkpoint = 15\<rparr>)\<rparr>"

definition sample_token :: string where
  "sample_token = ''H.C.'' @ sample_signature"

definition sample_policy :: Policy where
  "sample_policy = \<lparr>continuity = (\<lambda>_ _. Inr ()), context_of = (\<lambda>_ _. Inr sample_context),
                     prepared = (\<lambda>_ _. Inr ()), applied = (\<lambda>_ _ _. Inr ())\<rparr>"

definition sample_decision :: CommittedDecision where
  "sample_decision = \<lparr>cd_request = sample_request,
     cd_token_digest = sha256 sample_grant_env (as_bytes sample_token), cd_grant_id = 21\<rparr>"

definition sample_empty :: "decision_doc decision_db" where
  "sample_empty = \<lparr>dd_scope = Some (2, ScopeDoc sample_scope), dd_record = None\<rparr>"

definition sample_calls :: "(Policy \<times> decision_op) list" where
  "sample_calls =
     [(sample_policy, DecideOp sample_request sample_token),
      (sample_policy, AcknowledgeOp sample_decision (snd (rq_prepared sample_request))),
      (sample_policy, CompleteOp sample_request 40),
      (sample_policy, AcknowledgeOp sample_decision (fst (rq_prepared sample_request))),
      (sample_policy, CompleteOp sample_request 41)]"

definition sample_record :: "bool \<times> bool \<Rightarrow> Id option \<Rightarrow> Record" where
  "sample_record acks c =
     \<lparr>rec_request = sample_request, rec_token = sample_token, rec_grant_id = 21,
      rec_acknowledgements = acks, rec_completion = c\<rparr>"

lemma sample_decision_lawful: "decision_lawful sample_decision_env"
  by (auto simp: decision_lawful_def sample_decision_env_def grant_env.defs decision_env.defs)

section \<open>Properties\<close>

text \<open>
  C6. A first decision was authorized at that moment, and it is what the journal now holds. If
  \<open>decide\<close> succeeds on an empty journal, the policy supplied a context for this installation, region
  and profile in which the token verifies as a grant of exactly the requested plan, the policy
  confirmed the prepared members and (twice) its continuity, the request is valid for the scope's
  baseline, and the journal reads back this request, this token and the grant's identifier, with no
  acknowledgement and no completion.
\<close>

theorem decision_first_commit:
  assumes "decision_lawful E" "decision_read E scope db = Inr None"
    and "decision_decide E policy scope request token db = (Inr (), db')"
  shows "\<exists>ctx grant. context_of policy scope request = Inr ctx
    \<and> cx_install_id ctx = sc_install scope \<and> cx_region ctx = sc_region scope
    \<and> cx_profile ctx = sc_profile scope
    \<and> grant_verify E ctx token = Inr grant \<and> vg_plan grant = rq_plan request
    \<and> prepared policy scope request = Inr ()
    \<and> continuity policy 0 scope = Inr () \<and> continuity policy 1 scope = Inr ()
    \<and> request_validate request (sc_baseline scope) = Inr ()
    \<and> decision_read E scope db' = Inr (Some \<lparr>rec_request = request, rec_token = token,
         rec_grant_id = vg_grant_id grant, rec_acknowledgements = (False, False),
         rec_completion = None\<rparr>)"
proof -
  obtain r where r: "decide_fresh E policy scope request token = Inr r" "decision_save E r db = Inr db'"
    and q: "request_validate request (sc_baseline scope) = Inr ()" "continuity policy 0 scope = Inr ()"
    using assms(2,3) by (auto simp: decision_decide_def transact_Inr res_simps)
  show ?thesis
    using decision_save_changes [OF r(2) assms(2)] decision_decide_step [OF assms(1,3)] r(1) q by (auto simp: decide_fresh_Inr)
qed

theorem decision_first_commit_witness:
  "decision_read sample_decision_env sample_scope
     (snd (decision_decide sample_decision_env sample_policy sample_scope sample_request sample_token
        sample_empty))
   = Inr (Some (sample_record (False, False) None))"
proof -
  have none: "decision_read sample_decision_env sample_scope sample_empty = Inr None"
    by code_simp
  have ok: "fst (decision_decide sample_decision_env sample_policy sample_scope sample_request
      sample_token sample_empty) = Inr ()"
    by code_simp
  have "grant_verify sample_decision_env sample_context sample_token
      = Inr \<lparr>vg_plan = sample_plan, vg_grant_id = 21\<rparr>"
    by code_simp
  then show ?thesis
    using decision_first_commit [OF sample_decision_lawful none, of sample_policy sample_request
        sample_token, OF prod_eqI] ok
    by (auto simp: sample_policy_def sample_record_def)
qed

text \<open>
  C7. A decision is final. Whatever calls follow, under whatever policies, a journal that holds a
  decision stays readable and holds that same request, token and grant; no acknowledgement is
  withdrawn; a completion, once recorded, is never replaced, and there is one only when both
  members have acknowledged.
\<close>

theorem decision_is_final:
  assumes "decision_lawful E" "decision_read E scope db = Inr (Some r)"
  shows "\<exists>r'. decision_read E scope (decision_run E scope calls db) = Inr (Some r')
    \<and> rec_request r' = rec_request r \<and> rec_token r' = rec_token r
    \<and> rec_grant_id r' = rec_grant_id r
    \<and> (\<forall>j. at (rec_acknowledgements r) j \<longrightarrow> at (rec_acknowledgements r') j)
    \<and> (\<forall>c. rec_completion r = Some c \<longrightarrow> rec_completion r' = Some c)
    \<and> (rec_completion r' \<noteq> None \<longrightarrow> rec_acknowledgements r' = (True, True))"
proof -
  obtain new where new: "decision_read E scope (decision_run E scope calls db) = Inr new"
    using decision_run_reads [OF assms] by blast
  have "within (record_life (Some r)) (record_life new)"
    using dj.run_within [of "(E, scope)" db _ calls] assms new
    by (simp add: decision_view_def decision_run_eq)
  moreover have "\<forall>r'. new = Some r' \<longrightarrow> record_ok scope r'"
    using new decision_read_ok by blast
  moreover have "at (True, True) j" for j by (cases j) simp_all
  ultimately show ?thesis
    using new by (cases new) (auto simp: record_ok_def split: option.splits)
qed

theorem decision_is_final_witness:
  "\<exists>r'. decision_read sample_decision_env sample_scope
        (decision_run sample_decision_env sample_scope sample_calls
           (sample_empty\<lparr>dd_record := Some (RecordDoc (sample_record (True, True) (Some 39)), 2)\<rparr>))
      = Inr (Some r') \<and> rec_completion r' = Some 39"
proof -
  have "decision_read sample_decision_env sample_scope
      (sample_empty\<lparr>dd_record := Some (RecordDoc (sample_record (True, True) (Some 39)), 2)\<rparr>)
    = Inr (Some (sample_record (True, True) (Some 39)))"
    by code_simp
  from decision_is_final [OF sample_decision_lawful this, of sample_calls] show ?thesis
    by (auto simp: sample_record_def)
qed

text \<open>
  C8. A completion rests on both members' evidence. If a journal that started empty holds a
  completed decision after some calls, then for each of its two prepared members one of these calls
  was an acknowledgement, of this very request and member, for which the policy then in force
  confirmed that the member had applied it.
\<close>

theorem decision_completion_evidence:
  assumes "decision_lawful E" "decision_read E scope db = Inr None"
    and "decision_read E scope (decision_run E scope calls db) = Inr (Some r)"
    and "rec_completion r = Some c"
  shows "\<exists>policy decision.
       (policy, AcknowledgeOp decision (at (rq_prepared (rec_request r)) j)) \<in> set calls
     \<and> cd_request decision = rec_request r
     \<and> applied policy scope decision (at (rq_prepared (rec_request r)) j) = Inr ()"
proof -
  have "rec_acknowledgements r = (True, True)"
    using decision_read_ok [OF assms(3)] assms(4) by (simp add: record_ok_def)
  then have "at (rec_acknowledgements r) j" by (cases j) simp_all
  with evidenced_run [OF assms(1-3)] show ?thesis by (simp add: evidenced_def)
qed

theorem decision_completion_evidence_witness:
  "\<exists>policy decision.
       (policy, AcknowledgeOp decision (snd (rq_prepared sample_request))) \<in> set sample_calls
     \<and> applied policy sample_scope decision (snd (rq_prepared sample_request)) = Inr ()"
proof -
  have none: "decision_read sample_decision_env sample_scope sample_empty = Inr None"
    by code_simp
  have run: "decision_read sample_decision_env sample_scope
      (decision_run sample_decision_env sample_scope sample_calls sample_empty)
    = Inr (Some (sample_record (True, True) (Some 41)))"
    by code_simp
  have "at (rq_prepared sample_request) I1 = snd (rq_prepared sample_request)"
    by (cases "rq_prepared sample_request") simp
  then show ?thesis
    using decision_completion_evidence [OF sample_decision_lawful none run, of 41 I1]
    by (auto simp: sample_record_def)
qed

text \<open>
  C9. Retries converge and conflicts are refused. After a successful \<open>decide\<close>, the same call under
  any policy that confirms continuity succeeds again, without a grant check, and changes nothing;
  a call with another request or another token is refused and changes nothing.
\<close>

theorem decision_retry:
  assumes "decision_lawful E" "decision_decide E policy scope request token db = (Inr (), db')"
    and "continuity policy' 0 scope = Inr ()"
  shows "decision_decide E policy' scope request token db' = (Inr (), db')
    \<and> (\<forall>request' token'. (request', token') \<noteq> (request, token) \<longrightarrow>
        (\<exists>e. decision_decide E policy' scope request' token' db' = (Inl e, db')))"
proof -
  obtain r where r: "decision_read E scope db' = Inr (Some r)" "rec_request r = request"
    "rec_token r = token" "request_validate request (sc_baseline scope) = Inr ()" "len token \<le> 16 * 1024"
    using decision_decide_success [OF assms(1,2)] by blast
  have "\<exists>e. decision_decide E policy' scope request' token' db' = (Inl e, db')"
    if "(request', token') \<noteq> (request, token)" for request' token'
    using that r(1-3) assms(3)
    by (cases "request_validate request' (sc_baseline scope)")
       (auto simp: decision_decide_def ensure_def)
  moreover have "decision_decide E policy' scope request token db' = (Inr (), db')"
    using r assms(3) by (simp add: decision_decide_def)
  ultimately show ?thesis by blast
qed

theorem decision_retry_witness:
  "\<exists>db'. decision_decide sample_decision_env sample_policy sample_scope sample_request sample_token
       sample_empty = (Inr (), db')
   \<and> decision_decide sample_decision_env (sample_policy\<lparr>context_of := \<lambda>_ _. Inl Database\<rparr>) sample_scope
       sample_request sample_token db' = (Inr (), db')"
proof -
  have "fst (decision_decide sample_decision_env sample_policy sample_scope sample_request
      sample_token sample_empty) = Inr ()"
    by code_simp
  then obtain db' where db': "decision_decide sample_decision_env sample_policy sample_scope
      sample_request sample_token sample_empty = (Inr (), db')"
    by (metis prod.collapse)
  have "continuity (sample_policy\<lparr>context_of := \<lambda>_ _. Inl Database\<rparr>) 0 sample_scope = Inr ()"
    by (simp add: sample_policy_def)
  from decision_retry [OF sample_decision_lawful db' this] db' show ?thesis by blast
qed

end
