(* ===== verification/Transition_Token.thy ===== *)
theory Transition_Token
  imports Jws
begin

text \<open>
  The five authority instructions of the transition protocol and their signed tokens, from
  \<^verbatim>\<open>replication/recovery/src/transition.rs\<close> and \<^verbatim>\<open>replication/recovery/src/transition/loss.rs\<close>:
  checkpoint transitions, maintenance aborts, participant losses, loss successors and loss-successor
  aborts. For each: its fields, its validation, its digest and its verifier. The lemmas say exactly
  what an accepted token implies; the properties, that a token certifies one instruction only and
  that fresh verification is historical verification inside the validity window.
\<close>

section \<open>Data\<close>

record Checkpoint =
  k_sequence :: u64
  k_digest :: Id

record Participant =
  pt_member :: Id
  pt_generation :: Id
  pt_old_base :: "Checkpoint option"
  pt_target :: Checkpoint
  pt_plan :: Id
  pt_publication :: Id

record TransitionRequest =
  q_format :: u32
  q_id :: Id
  q_authority_id :: Id
  q_revision :: u64
  q_install :: string
  q_region :: string
  q_scope :: Id
  q_schema :: Id
  q_membership :: Id
  q_source_anchor :: Checkpoint
  q_participants :: "Participant \<times> Participant"

record MaintenanceAbort =
  a_format :: u32
  a_id :: Id
  a_authority_id :: Id
  a_revision :: u64
  a_install :: string
  a_region :: string
  a_scope :: Id
  a_schema :: Id
  a_membership :: Id
  a_aborted_request :: Id
  a_aborted_request_id :: Id
  a_aborted_revision :: u64
  a_decided :: bool
  a_source_anchor :: Checkpoint

record LossSuccessorAbort =
  x_format :: u32
  x_id :: Id
  x_authority_id :: Id
  x_revision :: u64
  x_install :: string
  x_region :: string
  x_scope :: Id
  x_schema :: Id
  x_membership :: Id
  x_parent_loss_certificate :: Id
  x_parent_loss_token_digest :: Id
  x_successor_id :: Id
  x_successor_certificate :: Id
  x_successor_token_digest :: Id
  x_fencing_ref :: Id

datatype SourceKind = Completed | Decided | LossSuccessor

record Supersedes =
  sp_loss_certificate :: Id
  sp_loss_token_digest :: Id
  sp_abort_certificate :: Id
  sp_abort_token_digest :: Id

record LossRequest =
  l_format :: u32
  l_id :: Id
  l_authority_id :: Id
  l_revision :: u64
  l_install :: string
  l_region :: string
  l_scope :: Id
  l_schema :: Id
  l_membership :: Id
  l_source_certificate :: Id
  l_source_token_digest :: Id
  l_source_cut :: Checkpoint
  l_lost_member :: Id
  l_lost_generation :: Id
  l_survivor :: Participant
  l_survivor_cut :: Checkpoint
  l_survivor_publication :: Id
  l_replacement_membership :: Id
  l_replacement_member :: Id
  l_replacement_generation :: Id
  l_fencing_ref :: Id
  l_source_kind :: "SourceKind option"
  l_abandoned_request :: "Id option"
  l_supersedes :: "Supersedes option"

record LossSuccessorRequest =
  s_format :: u32
  s_id :: Id
  s_authority_id :: Id
  s_revision :: u64
  s_install :: string
  s_region :: string
  s_scope :: Id
  s_schema :: Id
  s_membership :: Id
  s_source_certificate :: Id
  s_source_token_digest :: Id
  s_source_cut :: Checkpoint
  s_parent_loss_certificate :: Id
  s_parent_loss_token_digest :: Id
  s_survivor_cut :: Checkpoint
  s_survivor_publication :: Id
  s_participants :: "Participant \<times> Participant"
  s_survivor_index :: "u8 option"

text \<open>The claims of all five tokens have the same members around their own request type.\<close>

record 'r Claims =
  c_version :: u32
  c_iss :: string
  c_aud :: string
  c_action :: string
  c_certificate_id :: Id
  c_iat :: u64
  c_nbf :: u64
  c_exp :: u64
  c_request :: 'r
  c_request_digest :: Id

record Trust =
  tr_profile :: Profile
  tr_keys :: "(string \<times> bytes) list"
  tr_max_lifetime :: u64

record VerifiedIssuance =
  vi_request :: TransitionRequest
  vi_certificate_id :: Id
  vi_token_digest :: Id

record VerifiedHistorical =
  vh_request :: TransitionRequest
  vh_certificate_id :: Id
  vh_token_digest :: Id

text \<open>The libraries: \<open>crypto\<close>, and \<open>serde_json\<close> on the requests and on the claims.\<close>

record token_env = crypto +
  request_bytes :: "TransitionRequest \<Rightarrow> bytes option"
  abort_bytes :: "MaintenanceAbort \<Rightarrow> bytes option"
  loss_bytes :: "LossRequest \<Rightarrow> bytes option"
  successor_bytes :: "LossSuccessorRequest \<Rightarrow> bytes option"
  successor_abort_bytes :: "LossSuccessorAbort \<Rightarrow> bytes option"
  request_claims_json :: "bytes \<Rightarrow> TransitionRequest Claims option"
  abort_claims_json :: "bytes \<Rightarrow> MaintenanceAbort Claims option"
  loss_claims_json :: "bytes \<Rightarrow> LossRequest Claims option"
  successor_claims_json :: "bytes \<Rightarrow> LossSuccessorRequest Claims option"
  successor_abort_claims_json :: "bytes \<Rightarrow> LossSuccessorAbort Claims option"

definition MAX_TOKEN :: int where
  "MAX_TOKEN = 64 * 1024"

definition TOKEN_TYPE :: string where
  "TOKEN_TYPE = ''terrapi-checkpoint-transition+jwt''"

definition ABORT_TOKEN_TYPE :: string where
  "ABORT_TOKEN_TYPE = ''terrapi-maintenance-abort+jwt''"

definition LOSS_TOKEN_TYPE :: string where
  "LOSS_TOKEN_TYPE = ''terrapi-participant-loss+jwt''"

definition LOSS_SUCCESSOR_TOKEN_TYPE :: string where
  "LOSS_SUCCESSOR_TOKEN_TYPE = ''terrapi-loss-successor+jwt''"

definition LOSS_SUCCESSOR_ABORT_TOKEN_TYPE :: string where
  "LOSS_SUCCESSOR_ABORT_TOKEN_TYPE = ''terrapi-loss-successor-abort+jwt''"

section \<open>Validation\<close>

definition valid_text :: "string \<Rightarrow> bool" where
  "valid_text v \<longleftrightarrow> \<not> blank v \<and> len v \<le> 512"

definition valid_checkpoint :: "Checkpoint \<Rightarrow> bool" where
  "valid_checkpoint k \<longleftrightarrow> k_sequence k \<le> i64_max \<and> k_digest k \<noteq> 0"

definition valid_target :: "Checkpoint \<Rightarrow> bool" where
  "valid_target k \<longleftrightarrow> k_sequence k > 0 \<and> valid_checkpoint k"

definition valid_old_base :: "Participant \<Rightarrow> bool" where
  "valid_old_base p \<longleftrightarrow>
     \<not> is_some_and (pt_old_base p) (\<lambda>base.
         \<not> valid_checkpoint base \<or> k_sequence base \<ge> k_sequence (pt_target p))"

definition transition_validate :: "TransitionRequest \<Rightarrow> unit res" where
  "transition_validate q =
     (let primary = fst (q_participants q); secondary = snd (q_participants q) in
      if q_format q \<noteq> 1
       \<or> q_id q = 0
       \<or> q_authority_id q = 0
       \<or> q_revision q = 0
       \<or> q_revision q > i64_max
       \<or> q_scope q = 0
       \<or> q_schema q = 0
       \<or> q_membership q = 0
       \<or> \<not> valid_text (q_install q)
       \<or> \<not> valid_text (q_region q)
       \<or> \<not> valid_checkpoint (q_source_anchor q)
       \<or> pt_member primary = 0
       \<or> pt_member secondary = 0
       \<or> pt_member primary = pt_member secondary
       \<or> pt_generation primary = 0
       \<or> pt_generation secondary = 0
       \<or> pt_generation primary = pt_generation secondary
       \<or> pt_plan primary = 0
       \<or> pt_plan secondary = 0
       \<or> pt_plan primary \<noteq> pt_plan secondary
       \<or> pt_publication primary = 0
       \<or> pt_publication secondary = 0
       \<or> \<not> valid_target (pt_target primary)
       \<or> pt_target primary \<noteq> pt_target secondary
       \<or> k_sequence (pt_target primary) \<le> k_sequence (q_source_anchor q)
       \<or> \<not> valid_old_base primary \<or> \<not> valid_old_base secondary
      then Inl (Refused ''invalid transition request'')
      else Inr ())"

definition maintenance_abort_validate :: "MaintenanceAbort \<Rightarrow> unit res" where
  "maintenance_abort_validate a =
     (if a_format a \<noteq> 2
       \<or> a_id a = 0
       \<or> a_authority_id a = 0
       \<or> a_revision a = 0
       \<or> a_revision a > i64_max
       \<or> \<not> valid_text (a_install a)
       \<or> \<not> valid_text (a_region a)
       \<or> a_scope a = 0
       \<or> a_schema a = 0
       \<or> a_membership a = 0
       \<or> a_aborted_request a = 0
       \<or> a_aborted_request_id a = 0
       \<or> a_aborted_revision a = 0
       \<or> a_aborted_revision a > i64_max
       \<or> a_revision a \<noteq> a_aborted_revision a
       \<or> \<not> valid_checkpoint (a_source_anchor a)
      then Inl (Refused ''invalid maintenance abort'')
      else Inr ())"

definition successor_abort_validate :: "LossSuccessorAbort \<Rightarrow> unit res" where
  "successor_abort_validate x =
     (if x_format x \<noteq> 2
       \<or> x_id x = 0
       \<or> x_authority_id x = 0
       \<or> x_revision x = 0
       \<or> x_revision x > i64_max
       \<or> \<not> valid_text (x_install x)
       \<or> \<not> valid_text (x_region x)
       \<or> x_scope x = 0
       \<or> x_schema x = 0
       \<or> x_membership x = 0
       \<or> x_parent_loss_certificate x = 0
       \<or> x_parent_loss_token_digest x = 0
       \<or> x_successor_id x = 0
       \<or> x_successor_certificate x = 0
       \<or> x_successor_token_digest x = 0
       \<or> x_fencing_ref x = 0
      then Inl (Refused ''invalid loss successor abort'')
      else Inr ())"

definition roles :: "LossSuccessorRequest \<Rightarrow> (ix \<times> ix) res" where
  "roles s =
     (case s_survivor_index s of
        None \<Rightarrow> if s_format s = 1 then Inr (I0, I1) else Inl (Refused ''invalid loss successor request'')
      | Some i \<Rightarrow>
          if s_format s = 2 \<and> i = 0 then Inr (I0, I1)
          else if s_format s = 2 \<and> i = 1 then Inr (I1, I0)
          else Inl (Refused ''invalid loss successor request''))"

definition successor_survivor :: "LossSuccessorRequest \<Rightarrow> Participant res" where
  "successor_survivor s = and_then (roles s) (\<lambda>r. Inr (at (s_participants s) (fst r)))"

definition successor_replacement :: "LossSuccessorRequest \<Rightarrow> Participant res" where
  "successor_replacement s = and_then (roles s) (\<lambda>r. Inr (at (s_participants s) (snd r)))"

definition successor_validate :: "LossSuccessorRequest \<Rightarrow> unit res" where
  "successor_validate s =
     and_then (roles s) (\<lambda>(i, j).
       let survivor = at (s_participants s) i; replacement = at (s_participants s) j in
       if s_id s = 0
        \<or> s_authority_id s = 0
        \<or> s_revision s = 0
        \<or> s_revision s > i64_max
        \<or> \<not> valid_text (s_install s)
        \<or> \<not> valid_text (s_region s)
        \<or> s_scope s = 0
        \<or> s_schema s = 0
        \<or> s_membership s = 0
        \<or> s_source_certificate s = 0
        \<or> s_source_token_digest s = 0
        \<or> \<not> valid_checkpoint (s_source_cut s)
        \<or> s_parent_loss_certificate s = 0
        \<or> s_parent_loss_token_digest s = 0
        \<or> \<not> valid_checkpoint (s_survivor_cut s)
        \<or> s_survivor_publication s = 0
        \<or> pt_member survivor = 0
        \<or> pt_member replacement = 0
        \<or> pt_member survivor = pt_member replacement
        \<or> pt_generation survivor = 0
        \<or> pt_generation replacement = 0
        \<or> pt_generation survivor = pt_generation replacement
        \<or> pt_plan survivor = 0
        \<or> pt_plan survivor \<noteq> pt_plan replacement
        \<or> pt_target survivor \<noteq> s_survivor_cut s
        \<or> pt_target replacement \<noteq> s_survivor_cut s
        \<or> pt_publication survivor \<noteq> s_survivor_publication s
        \<or> pt_publication replacement \<noteq> s_survivor_publication s
        \<or> is_some_and (pt_old_base survivor) (\<lambda>b. k_sequence b > k_sequence (s_survivor_cut s))
        \<or> pt_old_base replacement \<noteq> Some (s_survivor_cut s)
       then Inl (Refused ''invalid loss successor request'')
       else Inr ())"

definition kind :: "LossRequest \<Rightarrow> SourceKind" where
  "kind l = (case l_source_kind l of None \<Rightarrow> Completed | Some k \<Rightarrow> k)"

definition valid_extensions :: "LossRequest \<Rightarrow> bool" where
  "valid_extensions l =
     (if l_format l = 1
      then \<not> (l_source_kind l \<noteq> None \<or> l_abandoned_request l \<noteq> None \<or> l_supersedes l \<noteq> None)
      else if l_format l = 2
      then l_source_kind l \<noteq> None
         \<and> is_none_or (l_abandoned_request l) (\<lambda>d. d \<noteq> 0
             \<and> (l_source_kind l = Some Completed \<or> l_source_kind l = Some Decided))
         \<and> is_none_or (l_supersedes l) (\<lambda>s. sp_loss_certificate s \<noteq> 0 \<and> sp_loss_token_digest s \<noteq> 0
             \<and> sp_abort_certificate s \<noteq> 0 \<and> sp_abort_token_digest s \<noteq> 0)
      else False)"

definition loss_validate :: "LossRequest \<Rightarrow> unit res" where
  "loss_validate l =
     (if \<not> valid_extensions l
       \<or> l_id l = 0
       \<or> l_authority_id l = 0
       \<or> l_revision l = 0
       \<or> l_revision l > i64_max
       \<or> \<not> valid_text (l_install l)
       \<or> \<not> valid_text (l_region l)
       \<or> l_scope l = 0
       \<or> l_schema l = 0
       \<or> l_membership l = 0
       \<or> l_source_certificate l = 0
       \<or> l_source_token_digest l = 0
       \<or> \<not> valid_checkpoint (l_source_cut l)
       \<or> l_lost_member l = 0
       \<or> l_lost_generation l = 0
       \<or> pt_member (l_survivor l) = 0
       \<or> pt_generation (l_survivor l) = 0
       \<or> pt_member (l_survivor l) = l_lost_member l
       \<or> \<not> valid_checkpoint (l_survivor_cut l)
       \<or> pt_target (l_survivor l) \<noteq> l_survivor_cut l
       \<or> l_survivor_publication l = 0
       \<or> pt_publication (l_survivor l) \<noteq> l_survivor_publication l
       \<or> k_sequence (l_survivor_cut l) < k_sequence (l_source_cut l)
       \<or> (k_sequence (l_survivor_cut l) = k_sequence (l_source_cut l)
           \<and> l_survivor_cut l \<noteq> l_source_cut l)
       \<or> l_replacement_member l = 0
       \<or> l_replacement_membership l = 0
       \<or> l_replacement_membership l = l_membership l
       \<or> l_replacement_generation l = 0
       \<or> l_replacement_generation l = l_lost_generation l
       \<or> l_replacement_generation l = pt_generation (l_survivor l)
       \<or> l_replacement_member l = l_lost_member l
       \<or> l_replacement_member l = pt_member (l_survivor l)
       \<or> l_fencing_ref l = 0
      then Inl (Refused ''invalid participant loss request'')
      else Inr ())"

section \<open>Digests\<close>

definition digest_with ::
  "'x crypto_scheme \<Rightarrow> ('r \<Rightarrow> unit res) \<Rightarrow> ('r \<Rightarrow> bytes option) \<Rightarrow> string \<Rightarrow> 'r \<Rightarrow> Id res" where
  "digest_with E validate to_vec message r =
     and_then (validate r) (\<lambda>_. and_then (ok_or (to_vec r) message) (\<lambda>json. Inr (sha256 E json)))"

definition request_digest :: "'x token_env_scheme \<Rightarrow> TransitionRequest \<Rightarrow> Id res" where
  "request_digest E = digest_with E transition_validate (request_bytes E) ''request encoding''"

definition abort_digest :: "'x token_env_scheme \<Rightarrow> MaintenanceAbort \<Rightarrow> Id res" where
  "abort_digest E =
     digest_with E maintenance_abort_validate (abort_bytes E) ''maintenance abort encoding''"

definition loss_digest :: "'x token_env_scheme \<Rightarrow> LossRequest \<Rightarrow> Id res" where
  "loss_digest E = digest_with E loss_validate (loss_bytes E) ''loss request encoding''"

definition successor_digest :: "'x token_env_scheme \<Rightarrow> LossSuccessorRequest \<Rightarrow> Id res" where
  "successor_digest E =
     digest_with E successor_validate (successor_bytes E) ''successor request encoding''"

definition successor_abort_digest :: "'x token_env_scheme \<Rightarrow> LossSuccessorAbort \<Rightarrow> Id res" where
  "successor_abort_digest E =
     digest_with E successor_abort_validate (successor_abort_bytes E) ''successor abort encoding''"

section \<open>Verification\<close>

text \<open>The steps all verifiers begin with: shape, header, key, signature, and the decoded payload.\<close>

definition signed_payload ::
  "'x crypto_scheme \<Rightarrow> Trust \<Rightarrow> (string \<Rightarrow> bool) \<Rightarrow> string \<Rightarrow> bytes res" where
  "signed_payload E trust purpose token =
     and_then (compact_parts MAX_TOKEN token) (\<lambda>(h, p, s).
     and_then (header_key E (tr_keys trust) purpose h) (\<lambda>key.
     and_then (check_signature E key token (h, p, s)) (\<lambda>_.
       decode_segment E p)))"

text \<open>The binding they all end with.\<close>

definition bind_request :: "'r \<Rightarrow> Id res \<Rightarrow> 'r Claims \<Rightarrow> unit res" where
  "bind_request expected digest c =
     (if c_request c \<noteq> expected then Inl (Refused ''request binding'')
      else and_then digest (\<lambda>d.
        if c_request_digest c \<noteq> d then Inl (Refused ''request binding'') else Inr ()))"

definition verify_common ::
  "'x token_env_scheme \<Rightarrow> string \<Rightarrow> Trust \<Rightarrow> TransitionRequest \<Rightarrow> TransitionRequest Claims res" where
  "verify_common E token trust expected =
     and_then (transition_validate expected) (\<lambda>_.
     and_then (profile_validate (tr_profile trust)) (\<lambda>_.
     and_then (signed_payload E trust (\<lambda>typ. pr_token_type (tr_profile trust) = TOKEN_TYPE \<and> typ = TOKEN_TYPE)
                 token) (\<lambda>raw.
     and_then (ok_or (request_claims_json E raw) ''claim schema'') (\<lambda>claims.
     and_then (ok_or (checked_sub (c_exp claims) (c_iat claims)) ''time order'') (\<lambda>lifetime.
       if c_version claims \<noteq> 1
        \<or> c_iss claims \<noteq> pr_issuer (tr_profile trust)
        \<or> c_aud claims \<noteq> pr_audience (tr_profile trust)
        \<or> c_action claims \<noteq> ''compact_pair''
        \<or> c_certificate_id claims = 0
       then Inl (Refused ''claim purpose'')
       else if lifetime = 0
        \<or> lifetime > tr_max_lifetime trust
        \<or> c_iat claims > c_nbf claims
        \<or> c_nbf claims \<ge> c_exp claims
       then Inl (Refused ''time window'')
       else and_then (bind_request expected (request_digest E expected) claims) (\<lambda>_. Inr claims))))))"

definition verify_issuance ::
  "'x token_env_scheme \<Rightarrow> string \<Rightarrow> Trust \<Rightarrow> TransitionRequest \<Rightarrow> u64 \<Rightarrow> VerifiedIssuance res" where
  "verify_issuance E token trust expected now =
     and_then (verify_common E token trust expected) (\<lambda>claims.
       if c_nbf claims > now \<or> now \<ge> c_exp claims then Inl (Refused ''time window'')
       else Inr \<lparr>vi_request = c_request claims, vi_certificate_id = c_certificate_id claims,
                 vi_token_digest = sha256 E (as_bytes token)\<rparr>)"

definition verify_historical ::
  "'x token_env_scheme \<Rightarrow> string \<Rightarrow> Trust \<Rightarrow> TransitionRequest \<Rightarrow> VerifiedHistorical res" where
  "verify_historical E token trust expected =
     and_then (verify_common E token trust expected) (\<lambda>claims.
       Inr \<lparr>vh_request = c_request claims, vh_certificate_id = c_certificate_id claims,
            vh_token_digest = sha256 E (as_bytes token)\<rparr>)"

text \<open>
  The four other verifiers differ in the type, the action, the request they validate and its
  digest; each passes its own to the same text.
\<close>

definition verify_signed ::
  "'x crypto_scheme \<Rightarrow> string \<Rightarrow> string \<Rightarrow> ('r \<Rightarrow> unit res) \<Rightarrow> ('r \<Rightarrow> Id res) \<Rightarrow> (bytes \<Rightarrow> 'r Claims option)
     \<Rightarrow> string \<Rightarrow> Trust \<Rightarrow> 'r \<Rightarrow> u64 option \<Rightarrow> Id res" where
  "verify_signed E token_type action validate digest from_json token trust expected now =
     and_then (validate expected) (\<lambda>_.
     and_then (profile_validate (tr_profile trust)) (\<lambda>_.
     and_then (signed_payload E trust (\<lambda>typ. typ = token_type) token) (\<lambda>raw.
     and_then (ok_or (from_json raw) ''claim schema'') (\<lambda>c.
     and_then (ok_or (checked_sub (c_exp c) (c_iat c)) ''time order'') (\<lambda>life.
       if c_version c \<noteq> 1
        \<or> c_iss c \<noteq> pr_issuer (tr_profile trust)
        \<or> c_aud c \<noteq> pr_audience (tr_profile trust)
        \<or> c_action c \<noteq> action
        \<or> c_certificate_id c = 0
        \<or> life = 0
        \<or> life > tr_max_lifetime trust
        \<or> c_iat c > c_nbf c
        \<or> c_nbf c \<ge> c_exp c
       then Inl (Refused ''claim purpose'')
       else if is_some_and now (\<lambda>n. c_nbf c > n \<or> n \<ge> c_exp c) then Inl (Refused ''time window'')
       else and_then (bind_request expected (digest expected) c) (\<lambda>_. Inr (c_certificate_id c)))))))"

definition verify_abort ::
  "'x token_env_scheme \<Rightarrow> string \<Rightarrow> Trust \<Rightarrow> MaintenanceAbort \<Rightarrow> u64 option \<Rightarrow> Id res" where
  "verify_abort E = verify_signed E ABORT_TOKEN_TYPE ''abort_compact_pair''
     maintenance_abort_validate (abort_digest E) (abort_claims_json E)"

definition verify_abort_issuance ::
  "'x token_env_scheme \<Rightarrow> string \<Rightarrow> Trust \<Rightarrow> MaintenanceAbort \<Rightarrow> u64 \<Rightarrow> Id res" where
  "verify_abort_issuance E token trust expected now = verify_abort E token trust expected (Some now)"

definition verify_abort_historical ::
  "'x token_env_scheme \<Rightarrow> string \<Rightarrow> Trust \<Rightarrow> MaintenanceAbort \<Rightarrow> Id res" where
  "verify_abort_historical E token trust expected = verify_abort E token trust expected None"

definition verify_loss_successor ::
  "'x token_env_scheme \<Rightarrow> string \<Rightarrow> Trust \<Rightarrow> LossSuccessorRequest \<Rightarrow> u64 option \<Rightarrow> Id res" where
  "verify_loss_successor E = verify_signed E LOSS_SUCCESSOR_TOKEN_TYPE ''activate_loss_successor''
     successor_validate (successor_digest E) (successor_claims_json E)"

definition verify_successor_issuance ::
  "'x token_env_scheme \<Rightarrow> string \<Rightarrow> Trust \<Rightarrow> LossSuccessorRequest \<Rightarrow> u64 \<Rightarrow> Id res" where
  "verify_successor_issuance E token trust expected now =
     verify_loss_successor E token trust expected (Some now)"

definition verify_successor_historical ::
  "'x token_env_scheme \<Rightarrow> string \<Rightarrow> Trust \<Rightarrow> LossSuccessorRequest \<Rightarrow> Id res" where
  "verify_successor_historical E token trust expected =
     verify_loss_successor E token trust expected None"

definition verify_successor_abort ::
  "'x token_env_scheme \<Rightarrow> string \<Rightarrow> Trust \<Rightarrow> LossSuccessorAbort \<Rightarrow> u64 option \<Rightarrow> Id res" where
  "verify_successor_abort E = verify_signed E LOSS_SUCCESSOR_ABORT_TOKEN_TYPE ''abort_loss_successor''
     successor_abort_validate (successor_abort_digest E) (successor_abort_claims_json E)"

definition verify_successor_abort_issuance ::
  "'x token_env_scheme \<Rightarrow> string \<Rightarrow> Trust \<Rightarrow> LossSuccessorAbort \<Rightarrow> u64 \<Rightarrow> Id res" where
  "verify_successor_abort_issuance E token trust expected now =
     verify_successor_abort E token trust expected (Some now)"

definition verify_successor_abort_historical ::
  "'x token_env_scheme \<Rightarrow> string \<Rightarrow> Trust \<Rightarrow> LossSuccessorAbort \<Rightarrow> Id res" where
  "verify_successor_abort_historical E token trust expected =
     verify_successor_abort E token trust expected None"

definition verify_loss ::
  "'x token_env_scheme \<Rightarrow> string \<Rightarrow> Trust \<Rightarrow> LossRequest \<Rightarrow> u64 option \<Rightarrow> Id res" where
  "verify_loss E = verify_signed E LOSS_TOKEN_TYPE ''terminate_and_replace''
     loss_validate (loss_digest E) (loss_claims_json E)"

definition verify_loss_issuance ::
  "'x token_env_scheme \<Rightarrow> string \<Rightarrow> Trust \<Rightarrow> LossRequest \<Rightarrow> u64 \<Rightarrow> Id res" where
  "verify_loss_issuance E token trust expected now = verify_loss E token trust expected (Some now)"

definition verify_loss_historical ::
  "'x token_env_scheme \<Rightarrow> string \<Rightarrow> Trust \<Rightarrow> LossRequest \<Rightarrow> Id res" where
  "verify_loss_historical E token trust expected = verify_loss E token trust expected None"

section \<open>What acceptance means\<close>

definition claims_for :: "Trust \<Rightarrow> string \<Rightarrow> 'r Claims \<Rightarrow> bool" where
  "claims_for trust action c \<longleftrightarrow>
     c_version c = 1 \<and> c_iss c = pr_issuer (tr_profile trust) \<and> c_aud c = pr_audience (tr_profile trust)
   \<and> c_action c = action \<and> c_certificate_id c \<noteq> 0
   \<and> c_iat c < c_exp c \<and> c_exp c - c_iat c \<le> tr_max_lifetime trust
   \<and> c_iat c \<le> c_nbf c \<and> c_nbf c < c_exp c"

definition in_window :: "'r Claims \<Rightarrow> u64 option \<Rightarrow> bool" where
  "in_window c now \<longleftrightarrow> is_none_or now (\<lambda>n. c_nbf c \<le> n \<and> n < c_exp c)"

lemma bind_request_Inr [res_simps]:
  "bind_request expected digest c = Inr u \<longleftrightarrow> c_request c = expected \<and> digest = Inr (c_request_digest c)"
  by (cases digest) (auto simp: bind_request_def)

lemma signed_payload_Inr:
  "signed_payload E trust purpose token = Inr raw \<longleftrightarrow>
     (\<exists>h p s key. compact_parts MAX_TOKEN token = Inr (h, p, s)
        \<and> header_key E (tr_keys trust) purpose h = Inr key
        \<and> check_signature E key token (h, p, s) = Inr () \<and> decode_segment E p = Inr raw)"
  by (auto simp: signed_payload_def and_then_Inr)

text \<open>The payload and the header's type are functions of the token.\<close>

lemma signed_payload_unique:
  assumes "signed_payload E trust1 purpose1 token = Inr raw1"
    and "signed_payload E trust2 purpose2 token = Inr raw2"
  shows "raw1 = raw2" and "\<exists>typ. purpose1 typ \<and> purpose2 typ"
  using assms by (auto simp: signed_payload_Inr header_key_Inr)

lemma lifetime_iff:
  fixes c :: "'r Claims"
  shows "(\<exists>life. checked_sub (c_exp c) (c_iat c) = Some life \<and> life \<noteq> 0 \<and> life \<le> m)
    \<longleftrightarrow> c_iat c < c_exp c \<and> c_exp c - c_iat c \<le> m"
  by (auto simp: checked_sub_def order.strict_iff_order)

lemma verify_common_Inr:
  "verify_common E token trust expected = Inr c \<longleftrightarrow>
     transition_validate expected = Inr () \<and> profile_validate (tr_profile trust) = Inr ()
   \<and> (\<exists>raw. signed_payload E trust
          (\<lambda>typ. pr_token_type (tr_profile trust) = TOKEN_TYPE \<and> typ = TOKEN_TYPE) token = Inr raw
        \<and> request_claims_json E raw = Some c)
   \<and> claims_for trust ''compact_pair'' c
   \<and> c_request c = expected \<and> request_digest E expected = Inr (c_request_digest c)"
proof -
  have "verify_common E token trust expected = Inr c \<longleftrightarrow>
      transition_validate expected = Inr () \<and> profile_validate (tr_profile trust) = Inr ()
    \<and> (\<exists>raw. signed_payload E trust
          (\<lambda>typ. pr_token_type (tr_profile trust) = TOKEN_TYPE \<and> typ = TOKEN_TYPE) token = Inr raw
        \<and> request_claims_json E raw = Some c)
    \<and> (\<exists>life. checked_sub (c_exp c) (c_iat c) = Some life \<and> life \<noteq> 0 \<and> life \<le> tr_max_lifetime trust)
    \<and> c_version c = 1 \<and> c_iss c = pr_issuer (tr_profile trust) \<and> c_aud c = pr_audience (tr_profile trust)
    \<and> c_action c = ''compact_pair'' \<and> c_certificate_id c \<noteq> 0 \<and> c_iat c \<le> c_nbf c \<and> c_nbf c < c_exp c
    \<and> c_request c = expected \<and> request_digest E expected = Inr (c_request_digest c)"
    by (auto simp: verify_common_def and_then_Inr ok_or_Inr bind_request_Inr not_less not_le)
  then show ?thesis
    unfolding lifetime_iff claims_for_def by blast
qed

lemma verify_signed_Inr:
  "verify_signed E token_type action validate digest from_json token trust expected now = Inr i \<longleftrightarrow>
     validate expected = Inr () \<and> profile_validate (tr_profile trust) = Inr ()
   \<and> (\<exists>raw c. signed_payload E trust (\<lambda>typ. typ = token_type) token = Inr raw \<and> from_json raw = Some c
        \<and> claims_for trust action c \<and> in_window c now
        \<and> c_request c = expected \<and> digest expected = Inr (c_request_digest c)
        \<and> c_certificate_id c = i)"
proof -
  have "verify_signed E token_type action validate digest from_json token trust expected now = Inr i \<longleftrightarrow>
      validate expected = Inr () \<and> profile_validate (tr_profile trust) = Inr ()
    \<and> (\<exists>raw c. signed_payload E trust (\<lambda>typ. typ = token_type) token = Inr raw \<and> from_json raw = Some c
        \<and> (\<exists>life. checked_sub (c_exp c) (c_iat c) = Some life \<and> life \<noteq> 0 \<and> life \<le> tr_max_lifetime trust)
        \<and> c_version c = 1 \<and> c_iss c = pr_issuer (tr_profile trust)
        \<and> c_aud c = pr_audience (tr_profile trust)
        \<and> c_action c = action \<and> c_certificate_id c \<noteq> 0 \<and> c_iat c \<le> c_nbf c \<and> c_nbf c < c_exp c
        \<and> in_window c now \<and> c_request c = expected \<and> digest expected = Inr (c_request_digest c)
        \<and> c_certificate_id c = i)"
    (is "?L \<longleftrightarrow> ?R")
  proof
    show "?L \<Longrightarrow> ?R"
      by (cases now)
         (auto simp: verify_signed_def in_window_def and_then_Inr ok_or_Inr bind_request_Inr
           not_less not_le split: if_splits)
    have no: "x < y \<Longrightarrow> (y \<le> x) = False" "x \<le> y \<Longrightarrow> (y < x) = False" for x y :: u64
      by auto
    show "?R \<Longrightarrow> ?L"
      by (cases now) (auto simp: verify_signed_def in_window_def bind_request_def no)
  qed
  then show ?thesis
    unfolding lifetime_iff claims_for_def by blast
qed

section \<open>Certificates\<close>

text \<open>
  What a token can certify, and the verifier for it. For a checkpoint transition fresh and
  historical verification are two functions; the other kinds take an optional time.
\<close>

datatype certificate =
    TransitionCert TransitionRequest
  | AbortCert MaintenanceAbort
  | LossCert LossRequest
  | SuccessorCert LossSuccessorRequest
  | SuccessorAbortCert LossSuccessorAbort

fun certify :: "'x token_env_scheme \<Rightarrow> string \<Rightarrow> Trust \<Rightarrow> certificate \<Rightarrow> u64 option \<Rightarrow> Id res" where
  "certify E token trust (TransitionCert q) now =
     (case now of
        None \<Rightarrow> and_then (verify_historical E token trust q) (\<lambda>v. Inr (vh_certificate_id v))
      | Some n \<Rightarrow> and_then (verify_issuance E token trust q n) (\<lambda>v. Inr (vi_certificate_id v)))"
| "certify E token trust (AbortCert a) now = verify_abort E token trust a now"
| "certify E token trust (LossCert l) now = verify_loss E token trust l now"
| "certify E token trust (SuccessorCert s) now = verify_loss_successor E token trust s now"
| "certify E token trust (SuccessorAbortCert x) now = verify_successor_abort E token trust x now"

fun certificate_type :: "certificate \<Rightarrow> string" where
  "certificate_type (TransitionCert q) = TOKEN_TYPE"
| "certificate_type (AbortCert a) = ABORT_TOKEN_TYPE"
| "certificate_type (LossCert l) = LOSS_TOKEN_TYPE"
| "certificate_type (SuccessorCert s) = LOSS_SUCCESSOR_TOKEN_TYPE"
| "certificate_type (SuccessorAbortCert x) = LOSS_SUCCESSOR_ABORT_TOKEN_TYPE"

fun certificate_digest :: "'x token_env_scheme \<Rightarrow> certificate \<Rightarrow> Id res" where
  "certificate_digest E (TransitionCert q) = request_digest E q"
| "certificate_digest E (AbortCert a) = abort_digest E a"
| "certificate_digest E (LossCert l) = loss_digest E l"
| "certificate_digest E (SuccessorCert s) = successor_digest E s"
| "certificate_digest E (SuccessorAbortCert x) = successor_abort_digest E x"

text \<open>
  The claims a signed payload carries for each kind of instruction, with the instruction itself
  among them, and the action they have to name.
\<close>

definition relabel :: "('r \<Rightarrow> 's) \<Rightarrow> 'r Claims \<Rightarrow> 's Claims" where
  "relabel f c = \<lparr>c_version = c_version c, c_iss = c_iss c, c_aud = c_aud c, c_action = c_action c,
     c_certificate_id = c_certificate_id c, c_iat = c_iat c, c_nbf = c_nbf c, c_exp = c_exp c,
     c_request = f (c_request c), c_request_digest = c_request_digest c\<rparr>"

fun certificate_claims ::
  "'x token_env_scheme \<Rightarrow> certificate \<Rightarrow> bytes \<Rightarrow> certificate Claims option" where
  "certificate_claims E (TransitionCert _) body =
     map_option (relabel TransitionCert) (request_claims_json E body)"
| "certificate_claims E (AbortCert _) body =
     map_option (relabel AbortCert) (abort_claims_json E body)"
| "certificate_claims E (LossCert _) body =
     map_option (relabel LossCert) (loss_claims_json E body)"
| "certificate_claims E (SuccessorCert _) body =
     map_option (relabel SuccessorCert) (successor_claims_json E body)"
| "certificate_claims E (SuccessorAbortCert _) body =
     map_option (relabel SuccessorAbortCert) (successor_abort_claims_json E body)"

fun certificate_action :: "certificate \<Rightarrow> string" where
  "certificate_action (TransitionCert _) = ''compact_pair''"
| "certificate_action (AbortCert _) = ''abort_compact_pair''"
| "certificate_action (LossCert _) = ''terminate_and_replace''"
| "certificate_action (SuccessorCert _) = ''activate_loss_successor''"
| "certificate_action (SuccessorAbortCert _) = ''abort_loss_successor''"

lemmas token_types =
  TOKEN_TYPE_def ABORT_TOKEN_TYPE_def LOSS_TOKEN_TYPE_def LOSS_SUCCESSOR_TOKEN_TYPE_def
  LOSS_SUCCESSOR_ABORT_TOKEN_TYPE_def

lemmas signed_verifiers =
  verify_abort_def verify_loss_def verify_loss_successor_def verify_successor_abort_def

lemma verify_issuance_Inr:
  "verify_issuance E token trust q n = Inr v \<longleftrightarrow>
     (\<exists>c. verify_common E token trust q = Inr c \<and> in_window c (Some n)
        \<and> v = \<lparr>vi_request = c_request c, vi_certificate_id = c_certificate_id c,
               vi_token_digest = sha256 E (as_bytes token)\<rparr>)"
  by (cases "verify_common E token trust q") (auto simp: verify_issuance_def in_window_def)

lemma verify_historical_Inr:
  "verify_historical E token trust q = Inr v \<longleftrightarrow>
     (\<exists>c. verify_common E token trust q = Inr c
        \<and> v = \<lparr>vh_request = c_request c, vh_certificate_id = c_certificate_id c,
               vh_token_digest = sha256 E (as_bytes token)\<rparr>)"
  by (auto simp: verify_historical_def and_then_Inr)

lemma certify_transition:
  "certify E token trust (TransitionCert q) now = Inr i \<longleftrightarrow>
     (\<exists>c. verify_common E token trust q = Inr c \<and> in_window c now \<and> c_certificate_id c = i)"
  by (cases now) (auto simp: and_then_Inr verify_historical_Inr verify_issuance_Inr in_window_def)

lemma relabel_simps [simp]:
  "c_request (relabel f c) = f (c_request c)" "c_request_digest (relabel f c) = c_request_digest c"
  "c_certificate_id (relabel f c) = c_certificate_id c"
  "claims_for trust action (relabel f c) = claims_for trust action c"
  "in_window (relabel f c) now = in_window c now"
  by (simp_all add: relabel_def claims_for_def in_window_def)

lemma certify_payload:
  assumes "certify E token trust x now = Inr i"
  shows "\<exists>body purpose c d. signed_payload E trust purpose token = Inr body
    \<and> (\<forall>typ. purpose typ \<longrightarrow> typ = certificate_type x)
    \<and> certificate_claims E x body = Some c \<and> c_request c = x
    \<and> certificate_digest E x = Inr d \<and> c_request_digest c = d \<and> c_certificate_id c = i
    \<and> claims_for trust (certificate_action x) c \<and> in_window c now"
proof (cases x)
  case (TransitionCert q)
  with assms show ?thesis by (force simp: certify_transition verify_common_Inr simp del: certify.simps)
qed (use assms in \<open>fastforce simp: signed_verifiers verify_signed_Inr\<close>)+

lemma same_certificate_type:
  assumes "certify E token trust x now = Inr i" "certify E token trust' y now' = Inr j"
  shows "certificate_type x = certificate_type y"
  using certify_payload [OF assms(1)] certify_payload [OF assms(2)] signed_payload_unique(2) by metis

lemma verify_common_unique:
  assumes "verify_common E token trust q = Inr c" "verify_common E token trust' q' = Inr c'"
  shows "q = q' \<and> c = c'"
proof -
  obtain raw raw' purpose purpose' where "signed_payload E trust purpose token = Inr raw"
    "signed_payload E trust' purpose' token = Inr raw'"
    and c: "request_claims_json E raw = Some c" "request_claims_json E raw' = Some c'"
      "c_request c = q" "c_request c' = q'"
    using assms unfolding verify_common_Inr by blast
  then have "raw = raw'" by (blast dest: signed_payload_unique(1))
  with c show ?thesis by simp
qed

lemma verify_signed_unique:
  assumes "verify_signed E ty action validate digest from_json token trust r now = Inr i"
    and "verify_signed E ty action validate digest from_json token trust' r' now' = Inr i'"
  shows "r = r' \<and> i = i'"
proof -
  obtain raw raw' c c' where "signed_payload E trust (\<lambda>typ. typ = ty) token = Inr raw"
    "signed_payload E trust' (\<lambda>typ. typ = ty) token = Inr raw'"
    and c: "from_json raw = Some c" "from_json raw' = Some c'" "c_request c = r" "c_request c' = r'"
      "c_certificate_id c = i" "c_certificate_id c' = i'"
    using assms unfolding verify_signed_Inr by blast
  then have "raw = raw'" by (blast dest: signed_payload_unique(1))
  with c show ?thesis by simp
qed

lemma claims_lifetime:
  assumes "claims_for trust action c"
  shows "unat (c_exp c) - unat (c_nbf c) \<le> unat (tr_max_lifetime trust)"
proof -
  have "c_iat c \<le> c_nbf c" "c_iat c \<le> c_exp c" "c_exp c - c_iat c \<le> tr_max_lifetime trust"
    using assms by (auto simp: claims_for_def)
  then show ?thesis by (simp add: word_le_nat_alt unat_sub)
qed

lemma verify_signed_window:
  assumes "verify_signed E ty action validate digest from_json token trust r None = Inr i"
  shows "\<exists>nbf exp. nbf < exp \<and> unat exp - unat nbf \<le> unat (tr_max_lifetime trust)
    \<and> (\<forall>now. verify_signed E ty action validate digest from_json token trust r (Some now) = Inr i
          \<longleftrightarrow> nbf \<le> now \<and> now < exp)"
proof -
  obtain raw c where c: "signed_payload E trust (\<lambda>typ. typ = ty) token = Inr raw" "from_json raw = Some c"
    "claims_for trust action c"
    and r: "validate r = Inr ()" "profile_validate (tr_profile trust) = Inr ()" "c_request c = r"
      "digest r = Inr (c_request_digest c)" "c_certificate_id c = i"
    using assms unfolding verify_signed_Inr by blast
  have "verify_signed E ty action validate digest from_json token trust r (Some now) = Inr i
      \<longleftrightarrow> c_nbf c \<le> now \<and> now < c_exp c" for now
    using c r unfolding verify_signed_Inr by (auto simp: in_window_def)
  moreover have "c_nbf c < c_exp c" using c(3) by (simp add: claims_for_def)
  ultimately show ?thesis using claims_lifetime [OF c(3)] by blast
qed

lemma certify_transition_window:
  assumes "certify E token trust (TransitionCert q) None = Inr i"
  shows "\<exists>nbf exp. nbf < exp \<and> unat exp - unat nbf \<le> unat (tr_max_lifetime trust)
    \<and> (\<forall>now. certify E token trust (TransitionCert q) (Some now) = Inr i \<longleftrightarrow> nbf \<le> now \<and> now < exp)"
proof -
  obtain c where c: "verify_common E token trust q = Inr c" "c_certificate_id c = i"
    using assms unfolding certify_transition by blast
  then have cf: "claims_for trust ''compact_pair'' c" by (simp add: verify_common_Inr)
  have "certify E token trust (TransitionCert q) (Some now) = Inr i \<longleftrightarrow> c_nbf c \<le> now \<and> now < c_exp c" for now
    using c unfolding certify_transition by (auto simp: in_window_def)
  moreover have "c_nbf c < c_exp c" using cf by (simp add: claims_for_def)
  ultimately show ?thesis using claims_lifetime [OF cf] by blast
qed

lemma certify_was_issued: "certify E token trust x (Some now) = Inr i \<Longrightarrow> certify E token trust x None = Inr i"
proof (cases x)
  case (TransitionCert q)
  moreover assume "certify E token trust x (Some now) = Inr i"
  ultimately show ?thesis
    unfolding TransitionCert certify_transition by (auto simp: in_window_def)
qed (auto simp: signed_verifiers verify_signed_Inr in_window_def)

section \<open>A concrete authority\<close>

text \<open>
  A small certificate authority to evaluate the verifiers and the journals on: the header segment
  is one letter for the token type, the payload segment names the request by a few characters, and
  every signature segment has 86 characters.
\<close>

definition sample_hash :: "bytes \<Rightarrow> Id" where
  "sample_hash b = foldl (\<lambda>h x. h * 256 + ucast x) 1 (take 8 b)"

definition sample_checkpoint :: "u8 \<Rightarrow> Checkpoint" where
  "sample_checkpoint n = \<lparr>k_sequence = 10 * ucast (n - 48), k_digest = 500 + ucast n\<rparr>"

definition sample_participant :: "Id \<Rightarrow> u8 \<Rightarrow> u8 \<Rightarrow> Participant" where
  "sample_participant m n base =
     \<lparr>pt_member = 20 + m, pt_generation = 30 + m,
      pt_old_base = (if base = 48 then None else Some (sample_checkpoint base)),
      pt_target = sample_checkpoint n, pt_plan = 41, pt_publication = 50 + m\<rparr>"

text \<open>The transition to revision \<open>n\<close> from the checkpoint of revision \<open>base\<close> (digits as characters).\<close>

definition sample_transition :: "u8 \<Rightarrow> u8 \<Rightarrow> TransitionRequest" where
  "sample_transition n base =
     \<lparr>q_format = 1, q_id = 100 + ucast n, q_authority_id = 5, q_revision = ucast (n - 48),
      q_install = ''inst'', q_region = ''eu'', q_scope = 6, q_schema = 7, q_membership = 8,
      q_source_anchor = \<lparr>k_sequence = 0, k_digest = 9\<rparr>,
      q_participants = (sample_participant 1 n base, sample_participant 2 n base)\<rparr>"

definition sample_request_bytes :: "TransitionRequest \<Rightarrow> bytes option" where
  "sample_request_bytes q = Some [ucast (q_id q), ucast (q_revision q)]"

definition sample_abort :: "u8 \<Rightarrow> u8 \<Rightarrow> u8 \<Rightarrow> MaintenanceAbort" where
  "sample_abort n request decided =
     \<lparr>a_format = 2, a_id = 200 + ucast n, a_authority_id = 5, a_revision = ucast (n - 48),
      a_install = ''inst'', a_region = ''eu'', a_scope = 6, a_schema = 7, a_membership = 8,
      a_aborted_request = sample_hash [100 + request, request - 48],
      a_aborted_request_id = 100 + ucast request, a_aborted_revision = ucast (n - 48),
      a_decided = (decided = 49), a_source_anchor = \<lparr>k_sequence = 0, k_digest = 9\<rparr>\<rparr>"

definition sample_compact :: "string \<Rightarrow> string \<Rightarrow> string" where
  "sample_compact h p = h @ ''.'' @ p @ ''.'' @ replicate 86 CHR ''S''"

text \<open>The hash of a token of this authority: it looks at the first eight characters only.\<close>

definition sample_digest :: "string \<Rightarrow> string \<Rightarrow> Id" where
  "sample_digest h p = sample_hash (as_bytes (h @ ''.'' @ p @ ''.SSSSS''))"

definition sample_certificate_id :: "string \<Rightarrow> Id" where
  "sample_certificate_id p = sample_hash (as_bytes p) + 5"

definition sample_certified :: "string \<Rightarrow> bytes \<Rightarrow> Id \<Rightarrow> 'r \<Rightarrow> 'r Claims option" where
  "sample_certified action raw d r =
     Some \<lparr>c_version = 1, c_iss = ''authority'', c_aud = ''vesta'', c_action = action,
          c_certificate_id = sample_hash raw + 5, c_iat = 100, c_nbf = 100, c_exp = 200,
          c_request = r, c_request_digest = d\<rparr>"

definition sample_crypto :: crypto where
  "sample_crypto =
     \<lparr>b64_decode = (\<lambda>s. Some (if len s = 86 then replicate 64 7 else as_bytes s)),
      b64_encode = (\<lambda>b. if len b = 64 then replicate 86 CHR ''S'' else map (\<lambda>x. char_of (unat x)) b),
      sha256 = sample_hash,
      es256 = (\<lambda>key message sig. key = [1, 2] \<and> sig = replicate 64 7),
      header_json = (\<lambda>b. map_option (\<lambda>t. \<lparr>h_alg = ''ES256'', h_kid = ''k1'', h_typ = t\<rparr>)
        (map_of [(as_bytes ''T'', TOKEN_TYPE), (as_bytes ''A'', ABORT_TOKEN_TYPE),
           (as_bytes ''L'', LOSS_TOKEN_TYPE), (as_bytes ''S'', LOSS_SUCCESSOR_TOKEN_TYPE),
           (as_bytes ''X'', LOSS_SUCCESSOR_ABORT_TOKEN_TYPE)] b))\<rparr>"

definition sample_trust :: Trust where
  "sample_trust =
     \<lparr>tr_profile = \<lparr>pr_issuer = ''authority'', pr_audience = ''vesta'', pr_token_type = TOKEN_TYPE\<rparr>,
      tr_keys = [(''k0'', [9]), (''k1'', [1, 2])], tr_max_lifetime = 300\<rparr>"

text \<open>
  The loss of member 22 after the transition of revision 1, replaced by the member numbered \<open>k\<close>,
  decided at revision \<open>n\<close>; it may supersede the loss with payload \<open>prev\<close>.
\<close>

definition sample_loss :: "u8 \<Rightarrow> u8 \<Rightarrow> bytes \<Rightarrow> LossRequest" where
  "sample_loss n k prev =
     \<lparr>l_format = 2, l_id = 300 + ucast n, l_authority_id = 5, l_revision = ucast (n - 48),
      l_install = ''inst'', l_region = ''eu'', l_scope = 6, l_schema = 7, l_membership = 8,
      l_source_certificate = sample_certificate_id ''10'',
      l_source_token_digest = sample_digest ''T'' ''10'',
      l_source_cut = sample_checkpoint 49, l_lost_member = 22, l_lost_generation = 32,
      l_survivor = sample_participant 1 49 48, l_survivor_cut = sample_checkpoint 49,
      l_survivor_publication = 51, l_replacement_membership = 60 + ucast k,
      l_replacement_member = 20 + ucast (k - 48), l_replacement_generation = 30 + ucast (k - 48),
      l_fencing_ref = 70, l_source_kind = Some Completed, l_abandoned_request = None,
      l_supersedes = (if prev = [] then None else Some
        (let p = map (\<lambda>x. char_of (unat x)) prev in
         \<lparr>sp_loss_certificate = sample_hash prev + 5,
          sp_loss_token_digest = sample_digest ''L'' p,
          sp_abort_certificate = sample_hash prev + 5,
          sp_abort_token_digest = sample_digest ''X'' p\<rparr>))\<rparr>"

definition sample_successor :: "u8 \<Rightarrow> u8 \<Rightarrow> LossSuccessorRequest" where
  "sample_successor n k =
     (let loss = sample_loss n k []; p = [char_of (unat n), char_of (unat k)] in
      \<lparr>s_format = 2, s_id = 400 + ucast n, s_authority_id = 5, s_revision = l_revision loss + 1,
       s_install = ''inst'', s_region = ''eu'', s_scope = 6, s_schema = 7,
       s_membership = l_replacement_membership loss,
       s_source_certificate = l_source_certificate loss,
       s_source_token_digest = l_source_token_digest loss, s_source_cut = l_source_cut loss,
       s_parent_loss_certificate = sample_hash [n, k] + 5,
       s_parent_loss_token_digest = sample_digest ''L'' p,
       s_survivor_cut = l_survivor_cut loss, s_survivor_publication = 51,
       s_participants = (sample_participant 1 49 48,
         (sample_participant (ucast (k - 48)) 49 49)\<lparr>pt_publication := 51\<rparr>),
       s_survivor_index = Some 0\<rparr>)"

definition sample_successor_abort :: "u8 \<Rightarrow> u8 \<Rightarrow> LossSuccessorAbort" where
  "sample_successor_abort n k =
     (let s = sample_successor n k; p = [char_of (unat n), char_of (unat k)] in
      \<lparr>x_format = 2, x_id = 600, x_authority_id = 5, x_revision = s_revision s,
       x_install = ''inst'', x_region = ''eu'', x_scope = 6, x_schema = 7,
       x_membership = s_membership s, x_parent_loss_certificate = s_parent_loss_certificate s,
       x_parent_loss_token_digest = s_parent_loss_token_digest s, x_successor_id = s_id s,
       x_successor_certificate = sample_hash [n, k] + 5,
       x_successor_token_digest = sample_digest ''S'' p,
       x_fencing_ref = 71\<rparr>)"

definition sample_token_env :: token_env where
  "sample_token_env = crypto.extend sample_crypto (token_env.fields
     sample_request_bytes
     (\<lambda>a. Some [ucast (a_id a), ucast (a_revision a)])
     (\<lambda>l. Some [ucast (l_id l), ucast (l_revision l), ucast (l_replacement_member l)])
     (\<lambda>s. Some [ucast (s_id s), ucast (s_revision s)])
     (\<lambda>x. Some [ucast (x_id x), ucast (x_revision x)])
     (\<lambda>b. case b of [n, base] \<Rightarrow>
          sample_certified ''compact_pair'' b (sample_hash [100 + n, n - 48]) (sample_transition n base)
        | _ \<Rightarrow> None)
     (\<lambda>b. case b of [n, r, d] \<Rightarrow>
          sample_certified ''abort_compact_pair'' b (sample_hash [200 + n, n - 48]) (sample_abort n r d)
        | _ \<Rightarrow> None)
     (\<lambda>b. case b of n # k # prev \<Rightarrow>
          sample_certified ''terminate_and_replace'' b
            (sample_hash [44 + n, n - 48, 20 + (k - 48)]) (sample_loss n k prev)
        | _ \<Rightarrow> None)
     (\<lambda>b. case b of [n, k] \<Rightarrow>
          sample_certified ''activate_loss_successor'' b (sample_hash [144 + n, n - 47]) (sample_successor n k)
        | _ \<Rightarrow> None)
     (\<lambda>b. case b of [n, k] \<Rightarrow>
          sample_certified ''abort_loss_successor'' b (sample_hash [88, n - 47]) (sample_successor_abort n k)
        | _ \<Rightarrow> None))"

section \<open>Properties\<close>

text \<open>
  C10. A token certifies one instruction only. If two verifications of the same token succeed,
  whichever of the five verifiers they use, whatever instruction they expect, whomever they trust
  and whenever they run, then they were for the same kind of instruction, for the same instruction,
  and they report the same certificate.
\<close>

theorem token_certifies_one_instruction:
  assumes "certify E token trust x now = Inr i" "certify E token trust' y now' = Inr j"
  shows "x = y \<and> i = j"
proof (cases x)
  case (TransitionCert q)
  then obtain q' where y: "y = TransitionCert q'"
    using same_certificate_type [OF assms] by (cases y) (simp_all add: token_types)
  show ?thesis
    using assms verify_common_unique unfolding TransitionCert y certify_transition by blast
next
  case (AbortCert a)
  then obtain a' where y: "y = AbortCert a'"
    using same_certificate_type [OF assms] by (cases y) (simp_all add: token_types)
  show ?thesis
    using assms unfolding AbortCert y by (auto simp: signed_verifiers dest: verify_signed_unique)
next
  case (LossCert l)
  then obtain l' where y: "y = LossCert l'"
    using same_certificate_type [OF assms] by (cases y) (simp_all add: token_types)
  show ?thesis
    using assms unfolding LossCert y by (auto simp: signed_verifiers dest: verify_signed_unique)
next
  case (SuccessorCert s)
  then obtain s' where y: "y = SuccessorCert s'"
    using same_certificate_type [OF assms] by (cases y) (simp_all add: token_types)
  show ?thesis
    using assms unfolding SuccessorCert y by (auto simp: signed_verifiers dest: verify_signed_unique)
next
  case (SuccessorAbortCert a)
  then obtain a' where y: "y = SuccessorAbortCert a'"
    using same_certificate_type [OF assms] by (cases y) (simp_all add: token_types)
  show ?thesis
    using assms unfolding SuccessorAbortCert y
    by (auto simp: signed_verifiers dest: verify_signed_unique)
qed

theorem token_certifies_one_instruction_witness:
  "certify sample_token_env (sample_compact ''S'' ''23'') sample_trust
     (SuccessorCert (sample_successor 50 51)) (Some 150) = Inr (sample_certificate_id ''23'')
   \<and> certify sample_token_env (sample_compact ''S'' ''23'') (sample_trust\<lparr>tr_max_lifetime := 100\<rparr>)
     (SuccessorCert (sample_successor 50 51)) None = Inr (sample_certificate_id ''23'')"
proof -
  have fresh: "certify sample_token_env (sample_compact ''S'' ''23'') sample_trust
     (SuccessorCert (sample_successor 50 51)) (Some 150) = Inr (sample_certificate_id ''23'')"
    by code_simp
  have "is_ok (certify sample_token_env (sample_compact ''S'' ''23'') (sample_trust\<lparr>tr_max_lifetime := 100\<rparr>)
     (SuccessorCert (sample_successor 50 51)) None)"
    by code_simp
  then obtain j where "certify sample_token_env (sample_compact ''S'' ''23'')
      (sample_trust\<lparr>tr_max_lifetime := 100\<rparr>) (SuccessorCert (sample_successor 50 51)) None = Inr j"
    unfolding is_ok_Inr by blast
  with fresh token_certifies_one_instruction [OF fresh this] show ?thesis by simp
qed

text \<open>
  C11. A certified instruction was signed, as this instruction, by a trusted key. If a verification
  succeeds, the token is three segments; the header is for ES256 and carries the type of this kind
  of instruction; its key name is trusted under exactly one entry; that entry's key signed the first
  two segments; and the second of them, the signed payload, decodes to claims that contain exactly
  the expected instruction, its digest and the returned certificate identifier, name the action of
  this kind of instruction and the configured issuer and audience, stay within the maximum lifetime,
  and are in their time window if a time was given.
\<close>

theorem certified_instruction_sound:
  assumes "certify E token trust x now = Inr i"
  shows "\<exists>h p s header raw sig key body c d. token = h @ ''.'' @ p @ ''.'' @ s
    \<and> b64_decode E h = Some raw \<and> header_json E raw = Some header
    \<and> h_alg header = ''ES256'' \<and> h_typ header = certificate_type x
    \<and> filter (\<lambda>k. fst k = h_kid header) (tr_keys trust) = [(h_kid header, key)]
    \<and> b64_decode E s = Some sig \<and> len sig = 64 \<and> es256 E key (as_bytes (h @ ''.'' @ p)) sig
    \<and> b64_decode E p = Some body \<and> certificate_claims E x body = Some c
    \<and> c_request c = x \<and> certificate_digest E x = Inr d \<and> c_request_digest c = d
    \<and> i \<noteq> 0 \<and> c_certificate_id c = i
    \<and> claims_for trust (certificate_action x) c \<and> in_window c now"
proof -
  obtain body purpose c d where signed: "signed_payload E trust purpose token = Inr body"
    and ty: "\<forall>typ. purpose typ \<longrightarrow> typ = certificate_type x"
    and c: "certificate_claims E x body = Some c" "c_request c = x" "certificate_digest E x = Inr d"
      "c_request_digest c = d" "c_certificate_id c = i" "claims_for trust (certificate_action x) c"
      "in_window c now"
    using certify_payload [OF assms] by blast
  obtain h p s key where cp: "compact_parts MAX_TOKEN token = Inr (h, p, s)"
    and key: "header_key E (tr_keys trust) purpose h = Inr key"
    and sig: "check_signature E key token (h, p, s) = Inr ()"
    and body: "b64_decode E p = Some body"
    using signed by (auto simp: signed_payload_Inr decode_segment_Inr)
  obtain raw header where header: "b64_decode E h = Some raw" "header_json E raw = Some header"
    "h_alg header = ''ES256''" "h_typ header = certificate_type x"
    "filter (\<lambda>k. fst k = h_kid header) (tr_keys trust) = [(h_kid header, key)]"
    using key ty by (auto simp: header_key_Inr unique_key_Inr decode_segment_Inr)
  obtain sg where sig': "b64_decode E s = Some sg" "len sg = 64"
    "es256 E key (as_bytes (h @ ''.'' @ p)) sg"
    using sig unfolding check_signature_Inr [OF cp] by (auto simp: decode_segment_Inr)
  have i: "i \<noteq> 0" using c by (auto simp: claims_for_def)
  show ?thesis
    by (rule exI [of _ h], rule exI [of _ p], rule exI [of _ s], rule exI [of _ header],
        rule exI [of _ raw], rule exI [of _ sg], rule exI [of _ key], rule exI [of _ body],
        rule exI [of _ c], rule exI [of _ d])
       (intro conjI compact_parts_token(1) [OF cp] header sig' i body c)
qed

theorem certified_instruction_sound_witness:
  "certify sample_token_env (sample_compact ''L'' ''23'') sample_trust (LossCert (sample_loss 50 51 []))
     (Some 150) = Inr (sample_certificate_id ''23'')
   \<and> (\<exists>p body c. b64_decode sample_token_env p = Some body
        \<and> loss_claims_json sample_token_env body = Some c \<and> c_request c = sample_loss 50 51 []
        \<and> loss_digest sample_token_env (sample_loss 50 51 []) = Inr (c_request_digest c))"
proof -
  have "certify sample_token_env (sample_compact ''L'' ''23'') sample_trust
     (LossCert (sample_loss 50 51 [])) (Some 150) = Inr (sample_certificate_id ''23'')"
    by code_simp
  with certified_instruction_sound [OF this] show ?thesis by (auto, metis)
qed

text \<open>
  C12. A token is certified exactly if there is a time at which it is fresh. A token verifies
  historically if and only if there is a nonempty interval, no longer than the configured maximum
  lifetime, such that the token verifies at a time exactly when the time lies in the interval.
\<close>

theorem freshness_window:
  "certify E token trust x None = Inr i \<longleftrightarrow>
     (\<exists>nbf exp. nbf < exp \<and> unat exp - unat nbf \<le> unat (tr_max_lifetime trust)
       \<and> (\<forall>now. certify E token trust x (Some now) = Inr i \<longleftrightarrow> nbf \<le> now \<and> now < exp))"
  (is "?L \<longleftrightarrow> ?R")
proof
  assume ?L
  then show ?R
    using certify_transition_window
    by (cases x) (auto simp: signed_verifiers dest!: verify_signed_window simp del: certify.simps(1))
next
  assume ?R
  then show ?L using certify_was_issued by blast
qed

end
