(* ===== verification/Transition_Store.thy ===== *)
theory Transition_Store
  imports Transition_Token One_Way
begin

text \<open>
  The database of the transition journal: the rows it stores, the codecs they pass through, and
  every function of \<^verbatim>\<open>replication/recovery/src/transition.rs\<close> and
  \<^verbatim>\<open>replication/recovery/src/transition/loss.rs\<close> that reads or writes a table. A row is a JSON text
  and its digest; the JSON texts are of an arbitrary type \<open>'j\<close>, with their codecs as arguments.
  The lemmas say that what is saved is what is read back, and that writing one table leaves the
  reading of the others alone.
\<close>

section \<open>Stored records\<close>

record JournalScope =
  js_install :: string
  js_region :: string
  js_profile :: Profile
  js_scope :: Id
  js_schema :: Id
  js_membership :: Id
  js_source_anchor :: Checkpoint
  js_authority_id :: Id
  js_initial_revision :: u64

record TransitionRecord =
  r_request :: TransitionRequest
  r_token :: string
  r_acknowledgements :: "bool \<times> bool"
  r_completion :: "Id option"

record AbortRecord =
  ar_format :: u32
  ar_abort :: MaintenanceAbort
  ar_token :: string
  ar_certificate_id :: Id

record LossRecord =
  lr_request :: LossRequest
  lr_token :: string
  lr_certificate_id :: Id

record SuccessorAbortRecord =
  xr_format :: u32
  xr_abort :: LossSuccessorAbort
  xr_token :: string
  xr_certificate_id :: Id

record Retired =
  rt_members :: "Id list"
  rt_generations :: "Id list"
  rt_memberships :: "Id list"

record SuccessorParent =
  pa_source_scope :: JournalScope
  pa_loss :: LossRecord
  pa_retired :: Retired

record LossSuccessorRecord =
  sr_request :: LossSuccessorRequest
  sr_token :: string
  sr_certificate_id :: Id
  sr_acknowledgements :: "bool \<times> bool"
  sr_completion :: "Id option"

section \<open>Libraries and database\<close>

text \<open>
  \<open>j_len\<close> is the byte length of a text, \<open>j_chars\<close> SQL's \<open>length\<close>, its number of characters.
  \<open>scope_members\<close> is the stored scope row taken apart: \<open>None\<close> if it is not JSON, \<open>Some None\<close> if it is
  not an object, otherwise its format member (absent, present but no number, or a number) and what
  the other members decode to. \<open>scope_mark\<close> is the row with the format member set to 2.
\<close>

record 'j journal_env = token_env +
  j_len :: "'j \<Rightarrow> int"
  j_chars :: "'j \<Rightarrow> int"
  j_bytes :: "'j \<Rightarrow> bytes"
  scope_enc :: "JournalScope \<Rightarrow> 'j option"
  scope_members :: "'j \<Rightarrow> (u64 option option \<times> JournalScope option) option option"
  scope_mark :: "'j \<Rightarrow> 'j option"
  record_enc :: "TransitionRecord \<Rightarrow> 'j option"
  record_dec :: "'j \<Rightarrow> TransitionRecord option"
  abort_enc :: "AbortRecord \<Rightarrow> 'j option"
  abort_dec :: "'j \<Rightarrow> AbortRecord option"
  loss_enc :: "LossRecord \<Rightarrow> 'j option"
  loss_dec :: "'j \<Rightarrow> LossRecord option"
  parent_enc :: "SuccessorParent \<Rightarrow> 'j option"
  parent_dec :: "'j \<Rightarrow> SuccessorParent option"
  successor_enc :: "LossSuccessorRecord \<Rightarrow> 'j option"
  successor_dec :: "'j \<Rightarrow> LossSuccessorRecord option"
  successor_abort_enc :: "SuccessorAbortRecord \<Rightarrow> 'j option"
  successor_abort_dec :: "'j \<Rightarrow> SuccessorAbortRecord option"

type_synonym 'j row = "'j \<times> Id"

text \<open>
  A field is one table. The first three are created with the journal; \<open>jd_scope\<close> and \<open>jd_head\<close> are
  their single rows. The others are created when first written (or, for \<open>jd_parent\<close>, only in a
  successor journal): \<open>None\<close> while the table does not exist, and for the tables that hold at most
  one row \<open>Some None\<close> while it is empty.
\<close>

record 'j journal_db =
  jd_scope :: "'j option"
  jd_head :: "u64 option"
  jd_history :: "'j row table"
  jd_abort :: "'j row table option"
  jd_parent :: "'j row option option"
  jd_loss :: "'j row option option"
  jd_chain :: "'j row table option"
  jd_chain_head :: "(u64 \<times> u64) option option"
  jd_successor :: "'j row option option"
  jd_successor_abort :: "'j row option option"

definition MAX_JOURNAL_RECORD :: int where
  "MAX_JOURNAL_RECORD = 256 * 1024"

definition MAX_ABORT_ROWS :: int where
  "MAX_ABORT_ROWS = 4096"

definition MAX_CHAIN_ROWS :: int where
  "MAX_CHAIN_ROWS = 4096"

section \<open>Scope and format\<close>

definition journal_scope_validate :: "JournalScope \<Rightarrow> unit res" where
  "journal_scope_validate s =
     (if \<not> valid_text (js_install s)
       \<or> \<not> valid_text (js_region s)
       \<or> js_scope s = 0
       \<or> js_schema s = 0
       \<or> js_membership s = 0
       \<or> js_authority_id s = 0
       \<or> js_initial_revision s = 0
       \<or> js_initial_revision s > i64_max
       \<or> \<not> valid_checkpoint (js_source_anchor s)
      then Inl (Refused ''invalid transition journal scope'')
      else profile_validate (js_profile s))"

definition scope_object ::
  "('j, 'x) journal_env_scheme \<Rightarrow> 'j \<Rightarrow> (u64 option option \<times> JournalScope option) res" where
  "scope_object E raw =
     ensure (j_len E raw \<le> 64 * 1024) ''transition scope limit'' (
     and_then (decoded (scope_members E raw)) (\<lambda>value.
       ok_or value ''transition journal scope mismatch''))"

definition read_scope ::
  "('j, 'x) journal_env_scheme \<Rightarrow> 'j journal_db \<Rightarrow> (JournalScope \<times> u32) res" where
  "read_scope E db =
     (case jd_scope db of
        None \<Rightarrow> Inl Database
      | Some raw \<Rightarrow>
          and_then (scope_object E raw) (\<lambda>(marker, rest).
          and_then (case marker of
               None \<Rightarrow> Inr 1
             | Some v \<Rightarrow> if v = Some 2 then Inr 2 else Inl (Refused ''transition journal format'')) (\<lambda>format.
          and_then (decoded rest) (\<lambda>scope. Inr (scope, format)))))"

text \<open>Which lazily created tables hold rows an older reader cannot see.\<close>

definition format_two_state :: "'j journal_db \<Rightarrow> bool" where
  "format_two_state db \<longleftrightarrow>
     is_some_and (jd_abort db) (\<lambda>t. t \<noteq> [])
   \<or> is_some_and (jd_chain db) (\<lambda>t. t \<noteq> [])
   \<or> is_some_and (jd_successor_abort db) (\<lambda>t. t \<noteq> None)"

definition ensure_journal_format ::
  "('j, 'x) journal_env_scheme \<Rightarrow> JournalScope \<Rightarrow> 'j journal_db \<Rightarrow> unit res" where
  "ensure_journal_format E scope db =
     and_then (read_scope E db) (\<lambda>(stored, format).
     ensure (stored = scope) ''transition journal scope mismatch'' (
     ensure (format = 2 \<or> \<not> format_two_state db) ''format-2 journal state without format marker''
       (Inr ())))"

definition mark_journal_format_two ::
  "('j, 'x) journal_env_scheme \<Rightarrow> 'j journal_db \<Rightarrow> 'j journal_db res" where
  "mark_journal_format_two E db =
     (case jd_scope db of
        None \<Rightarrow> Inl Database
      | Some raw \<Rightarrow>
          and_then (scope_object E raw) (\<lambda>(marker, rest).
            if marker \<noteq> None then Inr db
            else
              and_then (decoded (scope_mark E raw)) (\<lambda>json.
              ensure (j_len E json \<le> 64 * 1024) ''transition scope limit'' (
                Inr (db\<lparr>jd_scope := Some json\<rparr>)))))"

section \<open>Rows\<close>

definition row_of :: "('j, 'x) journal_env_scheme \<Rightarrow> 'j \<Rightarrow> 'j row" where
  "row_of E json = (json, sha256 E (j_bytes E json))"

definition row_intact :: "('j, 'x) journal_env_scheme \<Rightarrow> 'j row \<Rightarrow> bool" where
  "row_intact E row \<longleftrightarrow>
     j_len E (fst row) \<le> MAX_JOURNAL_RECORD \<and> snd row = sha256 E (j_bytes E (fst row))"

text \<open>\<open>ensure_row_sizes\<close>: no row of the table has more characters than the cap.\<close>

definition ensure_row_sizes ::
  "('j, 'x) journal_env_scheme \<Rightarrow> 'j row list \<Rightarrow> string \<Rightarrow> unit res" where
  "ensure_row_sizes E rows message =
     ensure (filter (\<lambda>row. j_chars E (fst row) > MAX_JOURNAL_RECORD) rows = []) message (Inr ())"

section \<open>Maintenance aborts\<close>

definition scope_binds_abort :: "JournalScope \<Rightarrow> MaintenanceAbort \<Rightarrow> bool" where
  "scope_binds_abort scope a \<longleftrightarrow>
     a_install a = js_install scope
   \<and> a_region a = js_region scope
   \<and> a_scope a = js_scope scope
   \<and> a_schema a = js_schema scope
   \<and> a_membership a = js_membership scope
   \<and> a_source_anchor a = js_source_anchor scope
   \<and> a_authority_id a = js_authority_id scope"

definition read_abort_row ::
  "('j, 'x) journal_env_scheme \<Rightarrow> Trust \<Rightarrow> JournalScope \<Rightarrow> u64 \<times> 'j row \<Rightarrow> AbortRecord res" where
  "read_abort_row E trust scope entry =
     (case entry of (at_revision, json, digest) \<Rightarrow>
       ensure (j_len E json \<le> MAX_JOURNAL_RECORD) ''transition abort record limit'' (
       ensure (digest = sha256 E (j_bytes E json)) ''transition abort record integrity'' (
       and_then (decoded (abort_dec E json)) (\<lambda>record.
       ensure (ar_format record = 2) ''transition abort record format'' (
       and_then (maintenance_abort_validate (ar_abort record)) (\<lambda>_.
       ensure (at_revision = a_aborted_revision (ar_abort record)) ''transition abort revision mismatch'' (
       ensure (scope_binds_abort scope (ar_abort record)) ''maintenance abort scope binding'' (
       and_then (verify_abort_historical E (ar_token record) trust (ar_abort record)) (\<lambda>certificate.
       ensure (certificate = ar_certificate_id record) ''transition abort certificate mismatch''
         (Inr record))))))))))"

fun read_abort_rows ::
  "('j, 'x) journal_env_scheme \<Rightarrow> Trust \<Rightarrow> JournalScope \<Rightarrow> (u64 \<times> AbortRecord) list \<Rightarrow> 'j row table
     \<Rightarrow> (u64 \<times> AbortRecord) list res" where
  "read_abort_rows E trust scope aborts [] = Inr aborts"
| "read_abort_rows E trust scope aborts (entry # rows) =
     and_then (read_abort_row E trust scope entry) (\<lambda>record.
     ensure (list_all (\<lambda>(_, r). a_id (ar_abort r) \<noteq> a_id (ar_abort record)
           \<and> a_aborted_request_id (ar_abort r) \<noteq> a_aborted_request_id (ar_abort record)) aborts)
       ''duplicate maintenance abort'' (
     ensure (list_all (\<lambda>(at_revision, _). at_revision \<noteq> fst entry) aborts) ''duplicate maintenance abort'' (
       read_abort_rows E trust scope (aborts @ [(fst entry, record)]) rows)))"

definition read_aborts ::
  "('j, 'x) journal_env_scheme \<Rightarrow> Trust \<Rightarrow> JournalScope \<Rightarrow> 'j journal_db
     \<Rightarrow> (u64 \<times> AbortRecord) list res" where
  "read_aborts E trust scope db =
     (case jd_abort db of
        None \<Rightarrow> Inr []
      | Some table \<Rightarrow>
          ensure (len table \<le> MAX_ABORT_ROWS) ''transition abort row limit'' (
          and_then (ensure_row_sizes E (map snd table) ''transition abort record limit'') (\<lambda>_.
            read_abort_rows E trust scope [] table)))"

definition save_abort ::
  "('j, 'x) journal_env_scheme \<Rightarrow> AbortRecord \<Rightarrow> 'j journal_db \<Rightarrow> 'j journal_db res" where
  "save_abort E r db =
     and_then (decoded (abort_enc E r)) (\<lambda>json.
     ensure (j_len E json \<le> MAX_JOURNAL_RECORD) ''transition abort record limit'' (
     and_then (mark_journal_format_two E db) (\<lambda>db.
     and_then (tab_insert (a_aborted_revision (ar_abort r)) (row_of E json)
                 (case jd_abort db of None \<Rightarrow> [] | Some t \<Rightarrow> t)) (\<lambda>table.
       Inr (db\<lparr>jd_abort := Some table\<rparr>)))))"

section \<open>Transition records\<close>

definition save_transition ::
  "('j, 'x) journal_env_scheme \<Rightarrow> TransitionRecord \<Rightarrow> 'j journal_db \<Rightarrow> 'j journal_db res" where
  "save_transition E r db =
     and_then (decoded (record_enc E r)) (\<lambda>json.
     ensure (j_len E json \<le> 256 * 1024) ''transition record limit'' (
     and_then (tab_insert (q_revision (r_request r)) (row_of E json) (jd_history db)) (\<lambda>table.
     ensure (jd_head db \<noteq> None) ''transition head update failed'' (
       Inr (db\<lparr>jd_history := table, jd_head := Some (q_revision (r_request r))\<rparr>)))))"

definition replace_transition ::
  "('j, 'x) journal_env_scheme \<Rightarrow> TransitionRecord \<Rightarrow> 'j journal_db \<Rightarrow> 'j journal_db res" where
  "replace_transition E r db =
     and_then (decoded (record_enc E r)) (\<lambda>json.
     ensure (j_len E json \<le> 256 * 1024) ''transition record limit'' (
     case tab_update (q_revision (r_request r)) (row_of E json) (jd_history db) of (n, table) \<Rightarrow>
       ensure (n = 1) ''transition update failed'' (Inr (db\<lparr>jd_history := table\<rparr>))))"

section \<open>Losses\<close>

definition decode_loss_row ::
  "('j, 'x) journal_env_scheme \<Rightarrow> Trust \<Rightarrow> 'j row \<Rightarrow> LossRecord res" where
  "decode_loss_row E trust row =
     ensure (row_intact E row) ''loss record integrity'' (
     and_then (decoded (loss_dec E (fst row))) (\<lambda>r.
     and_then (verify_loss E (lr_token r) trust (lr_request r) None) (\<lambda>certificate.
     ensure (certificate = lr_certificate_id r) ''loss certificate mismatch'' (Inr r))))"

definition read_chain_head :: "'j journal_db \<Rightarrow> (u64 \<times> u64) option" where
  "read_chain_head db = (case jd_chain_head db of None \<Rightarrow> None | Some head \<Rightarrow> head)"

definition last_loss :: "LossRecord list \<Rightarrow> LossRecord option" where
  "last_loss history = (if history = [] then None else Some (last history))"

fun read_chain_rows ::
  "('j, 'x) journal_env_scheme \<Rightarrow> Trust \<Rightarrow> LossRecord list \<Rightarrow> 'j row table \<Rightarrow> LossRecord list res" where
  "read_chain_rows E trust history [] = Inr history"
| "read_chain_rows E trust history ((revision, row) # rows) =
     and_then (decode_loss_row E trust row) (\<lambda>record.
     ensure (revision = l_revision (lr_request record)) ''loss chain revision mismatch'' (
     and_then (ok_or (last_loss history) ''loss chain root missing'') (\<lambda>previous.
     and_then (ok_or (l_supersedes (lr_request record)) ''loss chain row does not supersede'') (\<lambda>s.
     ensure (sp_loss_certificate s = lr_certificate_id previous
         \<and> sp_loss_token_digest s = sha256 E (as_bytes (lr_token previous)))
       ''loss chain link mismatch'' (
     and_then (ok_or (checked_add (l_revision (lr_request previous)) 1) ''loss revision overflow'') (\<lambda>next.
     ensure (l_revision (lr_request record) = next) ''loss chain link mismatch'' (
       read_chain_rows E trust (history @ [record]) rows)))))))"

definition read_loss_history ::
  "('j, 'x) journal_env_scheme \<Rightarrow> Trust \<Rightarrow> 'j journal_db \<Rightarrow> LossRecord list res" where
  "read_loss_history E trust db =
     (let head = read_chain_head db in
      case jd_loss db of
        None \<Rightarrow> ensure (head = None) ''loss chain truncated'' (Inr [])
      | Some None \<Rightarrow> Inr []
      | Some (Some row) \<Rightarrow>
          and_then (decode_loss_row E trust row) (\<lambda>first.
          ensure (l_supersedes (lr_request first) = None) ''loss chain root supersedes'' (
          case jd_chain db of
            None \<Rightarrow> ensure (head = None) ''loss chain truncated'' (Inr [first])
          | Some table \<Rightarrow>
              ensure (len table \<le> MAX_CHAIN_ROWS) ''loss chain row limit'' (
              and_then (ensure_row_sizes E (map snd table) ''loss record limit'') (\<lambda>_.
              ensure (table = [] \<or> head \<noteq> None) ''loss chain head missing'' (
              and_then (read_chain_rows E trust [first] table) (\<lambda>history.
                case head of
                  None \<Rightarrow> ensure (len history = 1) ''loss chain head missing'' (Inr history)
                | Some (revision, rows) \<Rightarrow>
                    ensure (uint rows + 1 = len history
                        \<and> is_some_and (last_loss history) (\<lambda>r. l_revision (lr_request r) = revision))
                      ''loss chain truncated'' (Inr history))))))))"

definition read_loss ::
  "('j, 'x) journal_env_scheme \<Rightarrow> Trust \<Rightarrow> 'j journal_db \<Rightarrow> LossRecord option res" where
  "read_loss E trust db = and_then (read_loss_history E trust db) (\<lambda>history. Inr (last_loss history))"

definition loss_record_exists ::
  "('j, 'x) journal_env_scheme \<Rightarrow> Trust \<Rightarrow> 'j journal_db \<Rightarrow> bool res" where
  "loss_record_exists E trust db =
     (if jd_loss db = None then Inr False
      else and_then (read_loss E trust db) (\<lambda>r. Inr (r \<noteq> None)))"

definition save_loss ::
  "('j, 'x) journal_env_scheme \<Rightarrow> LossRecord \<Rightarrow> 'j journal_db \<Rightarrow> 'j journal_db res" where
  "save_loss E r db =
     and_then (decoded (loss_enc E r)) (\<lambda>json.
     ensure (j_len E json \<le> 256 * 1024) ''loss record limit'' (
       case jd_loss db of
         Some (Some _) \<Rightarrow> Inl Database
       | _ \<Rightarrow> Inr (db\<lparr>jd_loss := Some (Some (row_of E json))\<rparr>)))"

definition save_chain_record ::
  "('j, 'x) journal_env_scheme \<Rightarrow> LossRecord \<Rightarrow> 'j journal_db \<Rightarrow> 'j journal_db res" where
  "save_chain_record E r db =
     and_then (decoded (loss_enc E r)) (\<lambda>json.
     ensure (j_len E json \<le> 256 * 1024) ''loss record limit'' (
     and_then (mark_journal_format_two E db) (\<lambda>db.
     and_then (tab_insert (l_revision (lr_request r)) (row_of E json)
                 (case jd_chain db of None \<Rightarrow> [] | Some t \<Rightarrow> t)) (\<lambda>table.
       Inr (db\<lparr>jd_chain := Some table,
               jd_chain_head := Some (Some (l_revision (lr_request r), of_int (len table)))\<rparr>)))))"

section \<open>Successor journals\<close>

definition retired_push :: "Id \<Rightarrow> Id \<Rightarrow> Id \<Rightarrow> Retired \<Rightarrow> Retired" where
  "retired_push member generation membership r =
     (let add = (\<lambda>x xs. if x \<in> set xs then xs else xs @ [x]) in
      \<lparr>rt_members = add member (rt_members r), rt_generations = add generation (rt_generations r),
       rt_memberships = add membership (rt_memberships r)\<rparr>)"

definition retired_contains :: "Retired \<Rightarrow> Id \<Rightarrow> Id \<Rightarrow> Id \<Rightarrow> bool" where
  "retired_contains r member generation membership \<longleftrightarrow>
     member \<in> set (rt_members r)
   \<or> generation \<in> set (rt_generations r)
   \<or> membership \<in> set (rt_memberships r)"

definition successor_parent_exists :: "'j journal_db \<Rightarrow> bool" where
  "successor_parent_exists db \<longleftrightarrow> jd_parent db \<noteq> None"

definition decode_parent_row ::
  "('j, 'x) journal_env_scheme \<Rightarrow> Trust \<Rightarrow> 'j row \<Rightarrow> SuccessorParent res" where
  "decode_parent_row E trust row =
     ensure (row_intact E row) ''loss parent integrity'' (
     and_then (decoded (parent_dec E (fst row))) (\<lambda>record.
     and_then (verify_loss E (lr_token (pa_loss record)) trust (lr_request (pa_loss record)) None) (\<lambda>certificate.
     ensure (certificate = lr_certificate_id (pa_loss record)) ''loss parent certificate mismatch''
       (Inr record))))"

definition read_parent ::
  "('j, 'x) journal_env_scheme \<Rightarrow> Trust \<Rightarrow> JournalScope \<Rightarrow> 'j journal_db \<Rightarrow> SuccessorParent option res" where
  "read_parent E trust scope db =
     (case jd_parent db of
        None \<Rightarrow> Inr None
      | Some None \<Rightarrow> Inl (Refused ''loss parent missing'')
      | Some (Some row) \<Rightarrow>
          and_then (decode_parent_row E trust row) (\<lambda>record.
          ensure (js_membership scope = l_replacement_membership (lr_request (pa_loss record)))
            ''loss parent membership mismatch'' (Inr (Some record))))"

definition validate_successor_parent ::
  "('j, 'x) journal_env_scheme \<Rightarrow> Trust \<Rightarrow> JournalScope \<Rightarrow> 'j journal_db \<Rightarrow> unit res" where
  "validate_successor_parent E trust scope db =
     and_then (read_parent E trust scope db) (\<lambda>parent.
       case parent of
         None \<Rightarrow> Inr ()
       | Some parent \<Rightarrow>
           let source = pa_source_scope parent; loss = lr_request (pa_loss parent) in
           ensure (js_profile source = tr_profile trust
             \<and> js_install source = l_install loss
             \<and> js_region source = l_region loss
             \<and> js_scope source = l_scope loss
             \<and> js_schema source = l_schema loss
             \<and> js_membership source = l_membership loss
             \<and> js_authority_id source = l_authority_id loss
             \<and> js_profile scope = js_profile source
             \<and> js_install scope = l_install loss
             \<and> js_region scope = l_region loss
             \<and> js_scope scope = l_scope loss
             \<and> js_schema scope = l_schema loss
             \<and> js_membership scope = l_replacement_membership loss
             \<and> js_source_anchor scope = l_source_cut loss
             \<and> js_authority_id scope = l_authority_id loss)
             ''loss parent scope mismatch'' (
           and_then (ok_or (checked_add (l_revision loss) 1) ''replacement revision overflow'') (\<lambda>next.
           ensure (js_initial_revision scope = next) ''loss parent scope mismatch'' (Inr ()))))"

definition read_successor ::
  "('j, 'x) journal_env_scheme \<Rightarrow> Trust \<Rightarrow> 'j journal_db \<Rightarrow> LossSuccessorRecord option res" where
  "read_successor E trust db =
     (case jd_successor db of
        None \<Rightarrow> Inr None
      | Some None \<Rightarrow> Inr None
      | Some (Some row) \<Rightarrow>
          ensure (row_intact E row) ''replacement record integrity'' (
          and_then (decoded (successor_dec E (fst row))) (\<lambda>r.
          and_then (verify_loss_successor E (sr_token r) trust (sr_request r) None) (\<lambda>certificate.
          ensure (certificate = sr_certificate_id r) ''replacement certificate mismatch'' (
          ensure (is_none_or (sr_completion r) (\<lambda>c. c \<noteq> 0 \<and> sr_acknowledgements r = (True, True)))
            ''invalid replacement completion'' (Inr (Some r)))))))"

definition save_successor ::
  "('j, 'x) journal_env_scheme \<Rightarrow> LossSuccessorRecord \<Rightarrow> 'j journal_db \<Rightarrow> 'j journal_db res" where
  "save_successor E r db =
     and_then (decoded (successor_enc E r)) (\<lambda>json.
       case jd_successor db of
         Some (Some _) \<Rightarrow> Inl Database
       | _ \<Rightarrow> Inr (db\<lparr>jd_successor := Some (Some (row_of E json))\<rparr>))"

definition save_successor_replace ::
  "('j, 'x) journal_env_scheme \<Rightarrow> LossSuccessorRecord \<Rightarrow> 'j journal_db \<Rightarrow> 'j journal_db res" where
  "save_successor_replace E r db =
     and_then (decoded (successor_enc E r)) (\<lambda>json.
       case jd_successor db of
         None \<Rightarrow> Inl Database
       | Some None \<Rightarrow> Inl (Refused ''replacement update failed'')
       | Some (Some _) \<Rightarrow> Inr (db\<lparr>jd_successor := Some (Some (row_of E json))\<rparr>))"

definition read_successor_abort ::
  "('j, 'x) journal_env_scheme \<Rightarrow> Trust \<Rightarrow> 'j journal_db \<Rightarrow> SuccessorAbortRecord option res" where
  "read_successor_abort E trust db =
     (case jd_successor_abort db of
        None \<Rightarrow> Inr None
      | Some None \<Rightarrow> Inr None
      | Some (Some row) \<Rightarrow>
          and_then (ensure_row_sizes E [row] ''loss successor abort integrity'') (\<lambda>_.
          ensure (row_intact E row) ''loss successor abort integrity'' (
          and_then (decoded (successor_abort_dec E (fst row))) (\<lambda>r.
          ensure (xr_format r = 2) ''loss successor abort format'' (
          and_then (verify_successor_abort_historical E (xr_token r) trust (xr_abort r)) (\<lambda>certificate.
          ensure (certificate = xr_certificate_id r) ''loss successor abort certificate mismatch''
            (Inr (Some r))))))))"

definition save_successor_abort ::
  "('j, 'x) journal_env_scheme \<Rightarrow> SuccessorAbortRecord \<Rightarrow> 'j journal_db \<Rightarrow> 'j journal_db res" where
  "save_successor_abort E r db =
     and_then (decoded (successor_abort_enc E r)) (\<lambda>json.
     ensure (j_len E json \<le> 256 * 1024) ''loss successor abort limit'' (
     and_then (mark_journal_format_two E db) (\<lambda>db.
       case jd_successor_abort db of
         Some (Some _) \<Rightarrow> Inl Database
       | _ \<Rightarrow> Inr (db\<lparr>jd_successor_abort := Some (Some (row_of E json))\<rparr>))))"

definition ensure_successor_not_aborted ::
  "('j, 'x) journal_env_scheme \<Rightarrow> Trust \<Rightarrow> 'j journal_db \<Rightarrow> unit res" where
  "ensure_successor_not_aborted E trust db =
     and_then (read_successor_abort E trust db) (\<lambda>r.
     ensure (r = None) ''loss successor aborted'' (Inr ()))"

definition ensure_successor_live ::
  "('j, 'x) journal_env_scheme \<Rightarrow> Trust \<Rightarrow> 'j journal_db \<Rightarrow> unit res" where
  "ensure_successor_live E trust db =
     and_then (loss_record_exists E trust db) (\<lambda>exists.
     ensure (\<not> exists) ''loss successor superseded by participant loss'' (Inr ()))"

text \<open>
  The first transaction in a successor's new file. \<open>objects\<close> and \<open>baseline\<close> are what the fresh
  container's schema queries answer.
\<close>

definition initialize_pristine_successor ::
  "('j, 'x) journal_env_scheme \<Rightarrow> JournalScope \<Rightarrow> SuccessorParent \<Rightarrow> (string \<times> string) list \<Rightarrow> u64 \<times> u64
     \<Rightarrow> 'j journal_db res" where
  "initialize_pristine_successor E scope parent objects baseline =
     ensure (objects = [(''table'', ''vesta_schema'')]) ''successor initialization is not pristine'' (
     ensure (baseline = (1, 1)) ''successor Vesta baseline mismatch'' (
     and_then (decoded (scope_enc E scope)) (\<lambda>json.
     and_then (decoded (parent_enc E parent)) (\<lambda>parent.
     ensure (j_len E parent \<le> 256 * 1024) ''loss parent limit'' (
       Inr \<lparr>jd_scope = Some json, jd_head = Some (js_initial_revision scope - 1), jd_history = [],
            jd_abort = None, jd_parent = Some (Some (row_of E parent)), jd_loss = None,
            jd_chain = None, jd_chain_head = None, jd_successor = None, jd_successor_abort = None\<rparr>)))))"

section \<open>Frames\<close>

text \<open>Each reader looks at its own tables: writing another table does not change what it reads.\<close>

lemma read_scope_frame [simp]:
  "read_scope E (db\<lparr>jd_head := new_head\<rparr>) = read_scope E db"
  "read_scope E (db\<lparr>jd_history := new_history\<rparr>) = read_scope E db"
  "read_scope E (db\<lparr>jd_abort := new_abort\<rparr>) = read_scope E db"
  "read_scope E (db\<lparr>jd_parent := new_parent\<rparr>) = read_scope E db"
  "read_scope E (db\<lparr>jd_loss := new_loss\<rparr>) = read_scope E db"
  "read_scope E (db\<lparr>jd_chain := new_chain\<rparr>) = read_scope E db"
  "read_scope E (db\<lparr>jd_chain_head := new_chain_head\<rparr>) = read_scope E db"
  "read_scope E (db\<lparr>jd_successor := new_successor\<rparr>) = read_scope E db"
  "read_scope E (db\<lparr>jd_successor_abort := new_successor_abort\<rparr>) = read_scope E db"
  by (simp_all add: read_scope_def)

lemma read_parent_frame [simp]:
  "read_parent E trust scope (db\<lparr>jd_scope := new_scope\<rparr>) = read_parent E trust scope db"
  "read_parent E trust scope (db\<lparr>jd_head := new_head\<rparr>) = read_parent E trust scope db"
  "read_parent E trust scope (db\<lparr>jd_history := new_history\<rparr>) = read_parent E trust scope db"
  "read_parent E trust scope (db\<lparr>jd_abort := new_abort\<rparr>) = read_parent E trust scope db"
  "read_parent E trust scope (db\<lparr>jd_loss := new_loss\<rparr>) = read_parent E trust scope db"
  "read_parent E trust scope (db\<lparr>jd_chain := new_chain\<rparr>) = read_parent E trust scope db"
  "read_parent E trust scope (db\<lparr>jd_chain_head := new_chain_head\<rparr>) = read_parent E trust scope db"
  "read_parent E trust scope (db\<lparr>jd_successor := new_successor\<rparr>) = read_parent E trust scope db"
  "read_parent E trust scope (db\<lparr>jd_successor_abort := new_successor_abort\<rparr>) = read_parent E trust scope db"
  by (simp_all add: read_parent_def)

lemma validate_successor_parent_frame [simp]:
  "validate_successor_parent E trust scope (db\<lparr>jd_scope := new_scope\<rparr>) = validate_successor_parent E trust scope db"
  "validate_successor_parent E trust scope (db\<lparr>jd_head := new_head\<rparr>) = validate_successor_parent E trust scope db"
  "validate_successor_parent E trust scope (db\<lparr>jd_history := new_history\<rparr>) = validate_successor_parent E trust scope db"
  "validate_successor_parent E trust scope (db\<lparr>jd_abort := new_abort\<rparr>) = validate_successor_parent E trust scope db"
  "validate_successor_parent E trust scope (db\<lparr>jd_loss := new_loss\<rparr>) = validate_successor_parent E trust scope db"
  "validate_successor_parent E trust scope (db\<lparr>jd_chain := new_chain\<rparr>) = validate_successor_parent E trust scope db"
  "validate_successor_parent E trust scope (db\<lparr>jd_chain_head := new_chain_head\<rparr>) = validate_successor_parent E trust scope db"
  "validate_successor_parent E trust scope (db\<lparr>jd_successor := new_successor\<rparr>) = validate_successor_parent E trust scope db"
  "validate_successor_parent E trust scope (db\<lparr>jd_successor_abort := new_successor_abort\<rparr>) = validate_successor_parent E trust scope db"
  by (simp_all add: validate_successor_parent_def)

lemma read_aborts_frame [simp]:
  "read_aborts E trust scope (db\<lparr>jd_scope := new_scope\<rparr>) = read_aborts E trust scope db"
  "read_aborts E trust scope (db\<lparr>jd_head := new_head\<rparr>) = read_aborts E trust scope db"
  "read_aborts E trust scope (db\<lparr>jd_history := new_history\<rparr>) = read_aborts E trust scope db"
  "read_aborts E trust scope (db\<lparr>jd_parent := new_parent\<rparr>) = read_aborts E trust scope db"
  "read_aborts E trust scope (db\<lparr>jd_loss := new_loss\<rparr>) = read_aborts E trust scope db"
  "read_aborts E trust scope (db\<lparr>jd_chain := new_chain\<rparr>) = read_aborts E trust scope db"
  "read_aborts E trust scope (db\<lparr>jd_chain_head := new_chain_head\<rparr>) = read_aborts E trust scope db"
  "read_aborts E trust scope (db\<lparr>jd_successor := new_successor\<rparr>) = read_aborts E trust scope db"
  "read_aborts E trust scope (db\<lparr>jd_successor_abort := new_successor_abort\<rparr>) = read_aborts E trust scope db"
  by (simp_all add: read_aborts_def)

lemma read_loss_history_frame [simp]:
  "read_loss_history E trust (db\<lparr>jd_scope := new_scope\<rparr>) = read_loss_history E trust db"
  "read_loss_history E trust (db\<lparr>jd_head := new_head\<rparr>) = read_loss_history E trust db"
  "read_loss_history E trust (db\<lparr>jd_history := new_history\<rparr>) = read_loss_history E trust db"
  "read_loss_history E trust (db\<lparr>jd_abort := new_abort\<rparr>) = read_loss_history E trust db"
  "read_loss_history E trust (db\<lparr>jd_parent := new_parent\<rparr>) = read_loss_history E trust db"
  "read_loss_history E trust (db\<lparr>jd_successor := new_successor\<rparr>) = read_loss_history E trust db"
  "read_loss_history E trust (db\<lparr>jd_successor_abort := new_successor_abort\<rparr>) = read_loss_history E trust db"
  by (simp_all add: read_loss_history_def read_chain_head_def cong: option.case_cong)

lemma loss_record_exists_frame [simp]:
  "loss_record_exists E trust (db\<lparr>jd_scope := new_scope\<rparr>) = loss_record_exists E trust db"
  "loss_record_exists E trust (db\<lparr>jd_head := new_head\<rparr>) = loss_record_exists E trust db"
  "loss_record_exists E trust (db\<lparr>jd_history := new_history\<rparr>) = loss_record_exists E trust db"
  "loss_record_exists E trust (db\<lparr>jd_abort := new_abort\<rparr>) = loss_record_exists E trust db"
  "loss_record_exists E trust (db\<lparr>jd_parent := new_parent\<rparr>) = loss_record_exists E trust db"
  "loss_record_exists E trust (db\<lparr>jd_successor := new_successor\<rparr>) = loss_record_exists E trust db"
  "loss_record_exists E trust (db\<lparr>jd_successor_abort := new_successor_abort\<rparr>) = loss_record_exists E trust db"
  by (simp_all add: loss_record_exists_def read_loss_def)

lemma read_successor_frame [simp]:
  "read_successor E trust (db\<lparr>jd_scope := new_scope\<rparr>) = read_successor E trust db"
  "read_successor E trust (db\<lparr>jd_head := new_head\<rparr>) = read_successor E trust db"
  "read_successor E trust (db\<lparr>jd_history := new_history\<rparr>) = read_successor E trust db"
  "read_successor E trust (db\<lparr>jd_abort := new_abort\<rparr>) = read_successor E trust db"
  "read_successor E trust (db\<lparr>jd_parent := new_parent\<rparr>) = read_successor E trust db"
  "read_successor E trust (db\<lparr>jd_loss := new_loss\<rparr>) = read_successor E trust db"
  "read_successor E trust (db\<lparr>jd_chain := new_chain\<rparr>) = read_successor E trust db"
  "read_successor E trust (db\<lparr>jd_chain_head := new_chain_head\<rparr>) = read_successor E trust db"
  "read_successor E trust (db\<lparr>jd_successor_abort := new_successor_abort\<rparr>) = read_successor E trust db"
  by (simp_all add: read_successor_def)

lemma read_successor_abort_frame [simp]:
  "read_successor_abort E trust (db\<lparr>jd_scope := new_scope\<rparr>) = read_successor_abort E trust db"
  "read_successor_abort E trust (db\<lparr>jd_head := new_head\<rparr>) = read_successor_abort E trust db"
  "read_successor_abort E trust (db\<lparr>jd_history := new_history\<rparr>) = read_successor_abort E trust db"
  "read_successor_abort E trust (db\<lparr>jd_abort := new_abort\<rparr>) = read_successor_abort E trust db"
  "read_successor_abort E trust (db\<lparr>jd_parent := new_parent\<rparr>) = read_successor_abort E trust db"
  "read_successor_abort E trust (db\<lparr>jd_loss := new_loss\<rparr>) = read_successor_abort E trust db"
  "read_successor_abort E trust (db\<lparr>jd_chain := new_chain\<rparr>) = read_successor_abort E trust db"
  "read_successor_abort E trust (db\<lparr>jd_chain_head := new_chain_head\<rparr>) = read_successor_abort E trust db"
  "read_successor_abort E trust (db\<lparr>jd_successor := new_successor\<rparr>) = read_successor_abort E trust db"
  by (simp_all add: read_successor_abort_def)

section \<open>Reading what was written\<close>

text \<open>
  The documented behaviour of the libraries the journal relies on: \<open>serde_json\<close> reads back what it
  wrote; the scope row without a format member decodes to the scope, and setting the member
  changes no other; a text has no more characters than bytes.
\<close>

definition journal_lawful :: "('j, 'x) journal_env_scheme \<Rightarrow> bool" where
  "journal_lawful E \<longleftrightarrow>
     (\<forall>s j. scope_enc E s = Some j \<longrightarrow> scope_members E j = Some (Some (None, Some s)))
   \<and> (\<forall>j j' rest. scope_members E j = Some (Some (None, rest)) \<and> scope_mark E j = Some j'
        \<longrightarrow> scope_members E j' = Some (Some (Some (Some 2), rest)))
   \<and> (\<forall>j. j_chars E j \<le> j_len E j)
   \<and> (\<forall>r j. record_enc E r = Some j \<longrightarrow> record_dec E j = Some r)
   \<and> (\<forall>r j. abort_enc E r = Some j \<longrightarrow> abort_dec E j = Some r)
   \<and> (\<forall>r j. loss_enc E r = Some j \<longrightarrow> loss_dec E j = Some r)
   \<and> (\<forall>r j. parent_enc E r = Some j \<longrightarrow> parent_dec E j = Some r)
   \<and> (\<forall>r j. successor_enc E r = Some j \<longrightarrow> successor_dec E j = Some r)
   \<and> (\<forall>r j. successor_abort_enc E r = Some j \<longrightarrow> successor_abort_dec E j = Some r)"

lemma lawful_codecs:
  assumes "journal_lawful E"
  shows "record_enc E r = Some j \<Longrightarrow> record_dec E j = Some r"
    and "abort_enc E a = Some j \<Longrightarrow> abort_dec E j = Some a"
    and "loss_enc E l = Some j \<Longrightarrow> loss_dec E j = Some l"
    and "parent_enc E p = Some j \<Longrightarrow> parent_dec E j = Some p"
    and "successor_enc E u = Some j \<Longrightarrow> successor_dec E j = Some u"
    and "successor_abort_enc E x = Some j \<Longrightarrow> successor_abort_dec E j = Some x"
    and "scope_enc E c = Some j \<Longrightarrow> scope_members E j = Some (Some (None, Some c))"
    and "j_chars E j \<le> j_len E j"
  using assms by (simp_all add: journal_lawful_def)

lemma row_intact_row_of: "j_len E json \<le> MAX_JOURNAL_RECORD \<Longrightarrow> row_intact E (row_of E json)"
  by (simp add: row_intact_def row_of_def)

lemma ensure_row_sizes_Inr [res_simps]:
  "ensure_row_sizes E rows message = Inr u \<longleftrightarrow> (\<forall>row \<in> set rows. j_chars E (fst row) \<le> MAX_JOURNAL_RECORD)"
  by (simp add: ensure_row_sizes_def ensure_Inr filter_empty_conv not_less)

text \<open>Marking the format touches only the scope row, and only its format member.\<close>

lemma mark_frame:
  assumes "mark_journal_format_two E db = Inr db'"
  shows "\<exists>json. db' = db\<lparr>jd_scope := Some json\<rparr>"
proof (cases "db' = db")
  case True
  obtain raw where "jd_scope db = Some raw"
    using assms by (cases "jd_scope db") (auto simp: mark_journal_format_two_def)
  then have "db = db\<lparr>jd_scope := Some raw\<rparr>" by (cases db) simp
  with True show ?thesis by metis
next
  case False
  with assms show ?thesis
    by (auto simp: mark_journal_format_two_def res_simps split: option.splits if_splits)
qed

lemma mark_read_scope:
  assumes "journal_lawful E" "mark_journal_format_two E db = Inr db'" "read_scope E db = Inr (scope, format)"
  shows "read_scope E db' = Inr (scope, 2)"
proof -
  obtain raw marker rest where raw: "jd_scope db = Some raw" "scope_object E raw = Inr (marker, rest)"
    "rest = Some scope"
    using assms(3) by (auto simp: read_scope_def res_simps split: option.splits)
  show ?thesis
  proof (cases marker)
    case None
    then obtain json where json: "scope_mark E raw = Some json" "j_len E json \<le> 64 * 1024"
      "db' = db\<lparr>jd_scope := Some json\<rparr>"
      using assms(2) raw by (auto simp: mark_journal_format_two_def res_simps)
    then have "scope_members E json = Some (Some (Some (Some 2), rest))"
      using assms(1) raw None by (auto simp: journal_lawful_def scope_object_def res_simps)
    with json raw show ?thesis by (simp add: read_scope_def scope_object_def)
  next
    case (Some v)
    then show ?thesis
      using assms(2,3) raw
      by (auto simp: mark_journal_format_two_def read_scope_def res_simps split: if_splits)
  qed
qed

lemma ensure_journal_format_Inr:
  "ensure_journal_format E scope db = Inr u \<longleftrightarrow>
     (\<exists>format. read_scope E db = Inr (scope, format) \<and> (format = 2 \<or> \<not> format_two_state db))"
  by (auto simp: ensure_journal_format_def res_simps)

lemma mark_format_ok:
  assumes "journal_lawful E" "mark_journal_format_two E db = Inr db'"
    and "ensure_journal_format E scope db = Inr ()" "jd_scope db'' = jd_scope db'"
  shows "ensure_journal_format E scope db'' = Inr ()"
proof -
  obtain format where "read_scope E db = Inr (scope, format)"
    using assms(3) by (auto simp: ensure_journal_format_Inr)
  with assms have "read_scope E db' = Inr (scope, 2)" by (blast intro: mark_read_scope)
  then have "read_scope E db'' = Inr (scope, 2)"
    using assms(4) by (simp add: read_scope_def)
  then show ?thesis by (simp add: ensure_journal_format_Inr)
qed

lemma ensure_journal_format_frame [simp]:
  "ensure_journal_format E scope (db\<lparr>jd_head := h\<rparr>) = ensure_journal_format E scope db"
  "ensure_journal_format E scope (db\<lparr>jd_history := t\<rparr>) = ensure_journal_format E scope db"
  "ensure_journal_format E scope (db\<lparr>jd_loss := l\<rparr>) = ensure_journal_format E scope db"
  "ensure_journal_format E scope (db\<lparr>jd_successor := s\<rparr>) = ensure_journal_format E scope db"
  by (simp_all add: ensure_journal_format_def format_two_state_def)

end
