(* ===== verification/Transition_Journal.thy ===== *)
theory Transition_Journal
  imports Transition_Store
begin

text \<open>
  The transition journal, \<^verbatim>\<open>replication/recovery/src/transition.rs\<close>: how its history is read and
  checked, and the operations \<open>decide\<close>, \<open>fetch\<close>, \<open>fetch_completed\<close>, \<open>fetch_completed_revision\<close>,
  \<open>status\<close>, \<open>acknowledge\<close>, \<open>complete\<close>, \<open>abort\<close> and \<open>fetch_abort\<close>. Reading is a fold over the history
  rows that consumes the abort rows in step with them. The lemmas give the invariant of that fold
  (revisions are consumed without gaps; only the last row can be open) and, from it, for every
  operation that writes, exactly what the journal reads afterwards.
\<close>

section \<open>Data\<close>

record History =
  hi_head :: "TransitionRecord option"
  hi_completed :: "TransitionRecord option"
  hi_ids :: "Id list"
  hi_aborts :: "(u64 \<times> AbortRecord) list"
  hi_consumed :: "u64 option"
  hi_last_revision :: u64

record CommittedTransition =
  ct_request :: TransitionRequest
  ct_token :: string
  ct_token_digest :: Id
  ct_certificate_id :: Id
  ct_acknowledgements :: "bool \<times> bool"
  ct_completion :: "Id option"

record CompletedTransition =
  co_committed :: CommittedTransition
  co_completion :: Id

record HistoricalCompletedTransition =
  hc_request :: TransitionRequest
  hc_token :: string
  hc_token_digest :: Id
  hc_certificate_id :: Id
  hc_completion :: Id

record CommittedMaintenanceAbort =
  ca_abort :: MaintenanceAbort
  ca_token :: string
  ca_token_digest :: Id
  ca_certificate_id :: Id

record JournalStatus =
  ts_request :: "TransitionRequest option"
  ts_acknowledgements :: "bool \<times> bool"
  ts_completion :: "Id option"
  ts_last_revision :: u64
  ts_aborted :: u64

text \<open>
  The integrator's hooks. A hook that an operation calls more than once also receives how many of
  its calls came before. The two hooks with a default implementation deny by default.
\<close>

record TransitionPolicy =
  tp_continuity :: "nat \<Rightarrow> JournalScope \<Rightarrow> TransitionRequest \<Rightarrow> unit res"
  tp_prepared :: "JournalScope \<Rightarrow> TransitionRequest \<Rightarrow> Participant \<Rightarrow> unit res"
  tp_applied :: "JournalScope \<Rightarrow> CommittedTransition \<Rightarrow> Participant \<Rightarrow> unit res"
  tp_historical_completion :: "JournalScope \<Rightarrow> TransitionRequest \<Rightarrow> TransitionRequest \<Rightarrow> unit res"
  tp_abort_applicable :: "JournalScope \<Rightarrow> MaintenanceAbort \<Rightarrow> unit res"

definition historical_completion_default :: "JournalScope \<Rightarrow> TransitionRequest \<Rightarrow> TransitionRequest \<Rightarrow> unit res" where
  "historical_completion_default _ _ _ = Inl (Refused ''historical transition not authorized'')"

definition abort_applicable_default :: "JournalScope \<Rightarrow> MaintenanceAbort \<Rightarrow> unit res" where
  "abort_applicable_default _ _ = Inl (Refused ''maintenance abort evidence missing'')"

section \<open>Reading the history\<close>

definition aborted_request_id :: "History \<Rightarrow> Id \<Rightarrow> bool" where
  "aborted_request_id h i = list_ex (\<lambda>(_, r). a_aborted_request_id (ar_abort r) = i) (hi_aborts h)"

definition abort_at :: "History \<Rightarrow> u64 \<Rightarrow> AbortRecord option" where
  "abort_at h revision = map_of (hi_aborts h) revision"

definition expected_revision :: "JournalScope \<Rightarrow> u64 option \<Rightarrow> u64 res" where
  "expected_revision scope consumed =
     (case consumed of
        Some r \<Rightarrow> ok_or (checked_add r 1) ''transition revision overflow''
      | None \<Rightarrow> Inr (js_initial_revision scope))"

definition undecided_abort ::
  "JournalScope \<Rightarrow> AbortRecord \<Rightarrow> u64 option \<Rightarrow> TransitionRecord option \<Rightarrow> unit res" where
  "undecided_abort scope record consumed effective =
     and_then (expected_revision scope consumed) (\<lambda>expected.
     ensure (\<not> a_decided (ar_abort record) \<and> a_aborted_revision (ar_abort record) = expected)
       ''transition abort sequencing'' (
     ensure (is_none_or effective (\<lambda>r. r_completion r \<noteq> None))
       ''decided transition must be aborted first'' (Inr ())))"

definition scope_binds_request :: "JournalScope \<Rightarrow> TransitionRequest \<Rightarrow> bool" where
  "scope_binds_request scope q \<longleftrightarrow>
     q_install q = js_install scope
   \<and> q_region q = js_region scope
   \<and> q_scope q = js_scope scope
   \<and> q_schema q = js_schema scope
   \<and> q_membership q = js_membership scope
   \<and> q_source_anchor q = js_source_anchor scope
   \<and> q_authority_id q = js_authority_id scope"

definition same_node :: "Participant \<Rightarrow> Participant \<Rightarrow> bool" where
  "same_node a b \<longleftrightarrow> pt_member a = pt_member b \<and> pt_generation a = pt_generation b"

definition chain ::
  "JournalScope \<Rightarrow> TransitionRecord option \<Rightarrow> u64 option \<Rightarrow> TransitionRecord \<Rightarrow> unit res" where
  "chain scope effective previous_revision r =
     (let q = r_request r in
      ensure (scope_binds_request scope q) ''transition scope binding'' (
      and_then (expected_revision scope previous_revision) (\<lambda>expected.
        case effective of
          Some p \<Rightarrow>
            let base = Some (pt_target (fst (q_participants (r_request p)))) in
            ensure (r_completion p \<noteq> None
                \<and> q_revision q = expected
                \<and> pt_old_base (fst (q_participants q)) = base
                \<and> pt_old_base (snd (q_participants q)) = base)
              ''transition chain mismatch'' (
            ensure (q_id q \<noteq> q_id (r_request p)
                \<and> same_node (fst (q_participants q)) (fst (q_participants (r_request p)))
                \<and> same_node (snd (q_participants q)) (snd (q_participants (r_request p))))
              ''transition membership history mismatch'' (Inr ()))
        | None \<Rightarrow> ensure (q_revision q = expected) ''initial transition revision mismatch'' (Inr ()))))"

definition decided_abort ::
  "('j, 'x) journal_env_scheme \<Rightarrow> MaintenanceAbort \<Rightarrow> TransitionRecord \<Rightarrow> unit res" where
  "decided_abort E a record =
     ensure (a_decided a
         \<and> r_completion record = None
         \<and> r_acknowledgements record \<noteq> (True, True)
         \<and> a_aborted_revision a = q_revision (r_request record)
         \<and> a_aborted_request_id a = q_id (r_request record))
       ''maintenance abort target mismatch'' (
     and_then (request_digest E (r_request record)) (\<lambda>d.
     ensure (a_aborted_request a = d) ''maintenance abort target mismatch'' (Inr ())))"

text \<open>The variables of the reading loop; \<open>sn_pending\<close> are the aborts not yet met.\<close>

record Scan =
  sn_pending :: "(u64 \<times> AbortRecord) list"
  sn_effective :: "TransitionRecord option"
  sn_completed :: "TransitionRecord option"
  sn_consumed :: "u64 option"
  sn_selected :: "TransitionRecord option"
  sn_ids :: "Id list"

text \<open>The inner loop: pending aborts of revisions that satisfy \<open>due\<close> were never decided.\<close>

fun flush_aborts ::
  "JournalScope \<Rightarrow> (u64 \<Rightarrow> bool) \<Rightarrow> TransitionRecord option \<Rightarrow> u64 option \<Rightarrow> (u64 \<times> AbortRecord) list
     \<Rightarrow> (u64 option \<times> (u64 \<times> AbortRecord) list) res" where
  "flush_aborts scope due effective consumed [] = Inr (consumed, [])"
| "flush_aborts scope due effective consumed ((a, r) # pending) =
     (if due a
      then and_then (undecided_abort scope r consumed effective) (\<lambda>_.
             flush_aborts scope due effective (Some a) pending)
      else Inr (consumed, (a, r) # pending))"

definition read_history_row ::
  "('j, 'x) journal_env_scheme \<Rightarrow> Trust \<Rightarrow> u64 \<times> 'j row \<Rightarrow> TransitionRecord res" where
  "read_history_row E trust entry =
     (case entry of (at_revision, json, digest) \<Rightarrow>
       ensure (j_len E json \<le> MAX_JOURNAL_RECORD) ''transition record limit'' (
       ensure (digest = sha256 E (j_bytes E json)) ''transition record integrity'' (
       and_then (decoded (record_dec E json)) (\<lambda>record.
       ensure (is_none_or (r_completion record) (\<lambda>c. c \<noteq> 0 \<and> r_acknowledgements record = (True, True)))
         ''invalid transition completion'' (
       ensure (at_revision = q_revision (r_request record)) ''transition revision mismatch'' (
       and_then (verify_historical E (r_token record) trust (r_request record)) (\<lambda>_.
         Inr record)))))))"

text \<open>
  A row consumes its revision; unless an abort of that revision is pending, its record becomes the
  effective head, and the completed one if it is complete.
\<close>

definition scan_note :: "u64 option \<Rightarrow> TransitionRecord \<Rightarrow> Scan \<Rightarrow> Scan" where
  "scan_note select record st =
     st\<lparr>sn_consumed := Some (q_revision (r_request record)),
        sn_ids := q_id (r_request record) # sn_ids st,
        sn_selected := (if select = Some (q_revision (r_request record)) then Some record
                        else sn_selected st)\<rparr>"

definition scan_live :: "TransitionRecord \<Rightarrow> Scan \<Rightarrow> Scan" where
  "scan_live record st =
     st\<lparr>sn_effective := Some record,
        sn_completed := (if r_completion record \<noteq> None then Some record else sn_completed st)\<rparr>"

definition scan_settle ::
  "('j, 'x) journal_env_scheme \<Rightarrow> u64 option \<Rightarrow> TransitionRecord \<Rightarrow> Scan \<Rightarrow> Scan res" where
  "scan_settle E select record st =
     (case sn_pending st of
        [] \<Rightarrow> Inr (scan_live record (scan_note select record st))
      | (a, abort) # rest \<Rightarrow>
          if a = q_revision (r_request record)
          then and_then (decided_abort E (ar_abort abort) record) (\<lambda>_.
                 Inr (scan_note select record (st\<lparr>sn_pending := rest\<rparr>)))
          else Inr (scan_live record (scan_note select record st)))"

definition scan_row ::
  "('j, 'x) journal_env_scheme \<Rightarrow> Trust \<Rightarrow> JournalScope \<Rightarrow> u64 option \<Rightarrow> Scan \<Rightarrow> u64 \<times> 'j row \<Rightarrow> Scan res" where
  "scan_row E trust scope select st entry =
     and_then (flush_aborts scope (\<lambda>a. a < fst entry) (sn_effective st) (sn_consumed st) (sn_pending st))
       (\<lambda>(consumed, pending).
     and_then (read_history_row E trust entry) (\<lambda>record.
     ensure (q_id (r_request record) \<notin> set (sn_ids st)) ''duplicate transition request id'' (
     and_then (chain scope (sn_effective st) consumed record) (\<lambda>_.
       scan_settle E select record (st\<lparr>sn_pending := pending\<rparr>)))))"

fun scan_rows ::
  "('j, 'x) journal_env_scheme \<Rightarrow> Trust \<Rightarrow> JournalScope \<Rightarrow> u64 option \<Rightarrow> Scan \<Rightarrow> 'j row table \<Rightarrow> Scan res" where
  "scan_rows E trust scope select st [] = Inr st"
| "scan_rows E trust scope select st (entry # rows) =
     and_then (scan_row E trust scope select st entry) (\<lambda>st'. scan_rows E trust scope select st' rows)"

definition scan_start :: "(u64 \<times> AbortRecord) list \<Rightarrow> Scan" where
  "scan_start aborts = \<lparr>sn_pending = aborts, sn_effective = None, sn_completed = None,
     sn_consumed = None, sn_selected = None, sn_ids = []\<rparr>"

definition last_of :: "JournalScope \<Rightarrow> u64 option \<Rightarrow> u64" where
  "last_of scope consumed = (case consumed of Some r \<Rightarrow> r | None \<Rightarrow> js_initial_revision scope - 1)"

definition history_of :: "JournalScope \<Rightarrow> (u64 \<times> AbortRecord) list \<Rightarrow> Scan \<Rightarrow> u64 option \<Rightarrow> History" where
  "history_of scope aborts st consumed =
     \<lparr>hi_head = sn_effective st, hi_completed = sn_completed st, hi_ids = sn_ids st, hi_aborts = aborts,
      hi_consumed = consumed, hi_last_revision = last_of scope consumed\<rparr>"

definition read_with_revision ::
  "('j, 'x) journal_env_scheme \<Rightarrow> Trust \<Rightarrow> JournalScope \<Rightarrow> u64 option \<Rightarrow> 'j journal_db
     \<Rightarrow> (History \<times> TransitionRecord option) res" where
  "read_with_revision E trust scope select db =
     ensure (tr_profile trust = js_profile scope) ''transition trust profile mismatch'' (
     and_then (validate_successor_parent E trust scope db) (\<lambda>_.
     and_then (ensure_journal_format E scope db) (\<lambda>_.
     and_then (read_aborts E trust scope db) (\<lambda>aborts.
     and_then (scan_rows E trust scope select (scan_start aborts) (jd_history db)) (\<lambda>st.
     and_then (flush_aborts scope (\<lambda>_. True) (sn_effective st) (sn_consumed st) (sn_pending st))
       (\<lambda>(consumed, _).
     case jd_head db of
       None \<Rightarrow> Inl Database
     | Some head \<Rightarrow>
         ensure (head = last_of scope consumed) ''transition head mismatch'' (
           Inr (history_of scope aborts st consumed, sn_selected st))))))))"

definition journal_read ::
  "('j, 'x) journal_env_scheme \<Rightarrow> Trust \<Rightarrow> JournalScope \<Rightarrow> 'j journal_db \<Rightarrow> History res" where
  "journal_read E trust scope db =
     and_then (read_with_revision E trust scope None db) (\<lambda>(history, _). Inr history)"

section \<open>Creating and opening\<close>

definition journal_create ::
  "('j, 'x) journal_env_scheme \<Rightarrow> bool \<Rightarrow> unit res \<Rightarrow> string \<Rightarrow> JournalScope \<Rightarrow> 'j journal_db res" where
  "journal_create E path_exists created passphrase scope =
     and_then (journal_scope_validate scope) (\<lambda>_.
     ensure (\<not> path_exists \<and> passphrase \<noteq> []) ''invalid transition journal initialization'' (
     and_then created (\<lambda>_.
     and_then (decoded (scope_enc E scope)) (\<lambda>json.
       Inr \<lparr>jd_scope = Some json, jd_head = Some (js_initial_revision scope - 1), jd_history = [],
            jd_abort = None, jd_parent = None, jd_loss = None, jd_chain = None,
            jd_chain_head = None, jd_successor = None, jd_successor_abort = None\<rparr>))))"

definition journal_open ::
  "('j, 'x) journal_env_scheme \<Rightarrow> bool \<Rightarrow> 'j journal_db res \<Rightarrow> string \<Rightarrow> JournalScope \<Rightarrow> Trust
     \<Rightarrow> 'j journal_db res" where
  "journal_open E is_file opened passphrase scope trust =
     and_then (journal_scope_validate scope) (\<lambda>_.
     ensure (is_file \<and> passphrase \<noteq> []) ''transition journal absent'' (
     and_then opened (\<lambda>db.
     and_then (journal_read E trust scope db) (\<lambda>_. Inr db))))"

section \<open>Operations\<close>

definition committed ::
  "('j, 'x) journal_env_scheme \<Rightarrow> Trust \<Rightarrow> TransitionRecord \<Rightarrow> CommittedTransition res" where
  "committed E trust r =
     and_then (verify_historical E (r_token r) trust (r_request r)) (\<lambda>v.
       Inr \<lparr>ct_request = r_request r, ct_token = r_token r, ct_token_digest = vh_token_digest v,
            ct_certificate_id = vh_certificate_id v, ct_acknowledgements = r_acknowledgements r,
            ct_completion = r_completion r\<rparr>)"

definition committed_abort ::
  "('j, 'x) journal_env_scheme \<Rightarrow> Trust \<Rightarrow> AbortRecord \<Rightarrow> CommittedMaintenanceAbort res" where
  "committed_abort E trust r =
     and_then (verify_abort_historical E (ar_token r) trust (ar_abort r)) (\<lambda>certificate.
     ensure (certificate = ar_certificate_id r) ''transition abort certificate mismatch'' (
       Inr \<lparr>ca_abort = ar_abort r, ca_token = ar_token r,
            ca_token_digest = sha256 E (as_bytes (ar_token r)), ca_certificate_id = certificate\<rparr>))"

definition fresh_record :: "TransitionRequest \<Rightarrow> string \<Rightarrow> TransitionRecord" where
  "fresh_record request token =
     \<lparr>r_request = request, r_token = token, r_acknowledgements = (False, False), r_completion = None\<rparr>"

text \<open>The checks of a first decision, after the retry branch.\<close>

definition decide_checks ::
  "('j, 'x) journal_env_scheme \<Rightarrow> TransitionPolicy \<Rightarrow> Trust \<Rightarrow> JournalScope \<Rightarrow> History \<Rightarrow> TransitionRequest
     \<Rightarrow> string \<Rightarrow> u64 \<Rightarrow> VerifiedIssuance res" where
  "decide_checks E policy trust scope old request token now =
     ensure (abort_at old (q_revision request) = None) ''transition revision aborted'' (
     ensure (q_id request \<notin> set (hi_ids old) \<and> \<not> aborted_request_id old (q_id request))
       ''duplicate transition request id'' (
     and_then (chain scope (hi_head old) (hi_consumed old) (fresh_record request token)) (\<lambda>_.
     and_then (verify_issuance E token trust request now) (\<lambda>verified.
     and_then (tp_prepared policy scope request (fst (q_participants request))) (\<lambda>_.
     and_then (tp_prepared policy scope request (snd (q_participants request))) (\<lambda>_.
     and_then (tp_continuity policy 1 scope request) (\<lambda>_. Inr verified)))))))"

definition journal_decide ::
  "('j, 'x) journal_env_scheme \<Rightarrow> TransitionPolicy \<Rightarrow> Trust \<Rightarrow> JournalScope \<Rightarrow> TransitionRequest \<Rightarrow> string
     \<Rightarrow> u64 \<Rightarrow> 'j journal_db \<Rightarrow> CommittedTransition res \<times> 'j journal_db" where
  "journal_decide E policy trust scope request token now db = transact db (
     and_then (transition_validate request) (\<lambda>_.
     ensure (len token \<le> MAX_TOKEN) ''token limit'' (
     and_then (journal_read E trust scope db) (\<lambda>old.
     and_then (loss_record_exists E trust db) (\<lambda>lost.
     ensure (\<not> lost) ''transition superseded by participant loss'' (
     ensure (hi_head old \<noteq> None \<or> \<not> successor_parent_exists db)
       ''replacement transition requires loss sequencing'' (
     and_then (tp_continuity policy 0 scope request) (\<lambda>_.
       if is_some_and (hi_head old) (\<lambda>r. r_request r = request)
       then and_then (ok_or (hi_head old) ''transition missing'') (\<lambda>r.
              ensure (r_token r = token) ''immutable transition conflict'' (Inr (committed E trust r, db)))
       else
         and_then (decide_checks E policy trust scope old request token now) (\<lambda>verified.
         and_then (save_transition E (fresh_record request token) db) (\<lambda>db'.
           Inr (Inr \<lparr>ct_request = request, ct_token = token, ct_token_digest = vi_token_digest verified,
                     ct_certificate_id = vi_certificate_id verified,
                     ct_acknowledgements = (False, False), ct_completion = None\<rparr>, db')))))))))))"

definition journal_fetch ::
  "('j, 'x) journal_env_scheme \<Rightarrow> TransitionPolicy \<Rightarrow> Trust \<Rightarrow> JournalScope \<Rightarrow> TransitionRequest
     \<Rightarrow> 'j journal_db \<Rightarrow> CommittedTransition res" where
  "journal_fetch E policy trust scope request db =
     and_then (journal_read E trust scope db) (\<lambda>history.
     and_then (loss_record_exists E trust db) (\<lambda>lost.
     ensure (\<not> lost) ''transition superseded by participant loss'' (
     and_then (ok_or (hi_head history) ''transition missing'') (\<lambda>r.
     ensure (r_request r = request) ''transition unavailable'' (
     and_then (tp_continuity policy 0 scope request) (\<lambda>_. committed E trust r))))))"

definition fetch_completed ::
  "('j, 'x) journal_env_scheme \<Rightarrow> TransitionPolicy \<Rightarrow> Trust \<Rightarrow> JournalScope \<Rightarrow> TransitionRequest
     \<Rightarrow> 'j journal_db \<Rightarrow> CompletedTransition res" where
  "fetch_completed E policy trust scope request db =
     and_then (journal_fetch E policy trust scope request db) (\<lambda>c.
     ensure (ct_acknowledgements c = (True, True)) ''transition acknowledgements incomplete'' (
     and_then (ok_or (ct_completion c) ''transition completion missing'') (\<lambda>completion.
       Inr \<lparr>co_committed = c, co_completion = completion\<rparr>)))"

definition fetch_completed_revision ::
  "('j, 'x) journal_env_scheme \<Rightarrow> TransitionPolicy \<Rightarrow> Trust \<Rightarrow> JournalScope \<Rightarrow> TransitionRequest
     \<Rightarrow> 'j journal_db \<Rightarrow> HistoricalCompletedTransition res" where
  "fetch_completed_revision E policy trust scope request db =
     and_then (transition_validate request) (\<lambda>_.
     and_then (read_with_revision E trust scope (Some (q_revision request)) db) (\<lambda>(history, selected).
     ensure (abort_at history (q_revision request) = None) ''transition revision aborted'' (
     and_then (ok_or (hi_head history) ''transition missing'') (\<lambda>head.
     and_then (ok_or selected ''transition revision unavailable'') (\<lambda>record.
     ensure (r_request record = request) ''transition request mismatch'' (
     ensure (r_acknowledgements record = (True, True)) ''transition acknowledgements incomplete'' (
     and_then (ok_or (r_completion record) ''transition completion missing'') (\<lambda>completion.
     and_then (tp_continuity policy 0 scope (r_request head)) (\<lambda>_.
     and_then (tp_historical_completion policy scope (r_request record) (r_request head)) (\<lambda>_.
     and_then (verify_historical E (r_token record) trust (r_request record)) (\<lambda>verified.
       Inr \<lparr>hc_request = r_request record, hc_token = r_token record,
            hc_token_digest = vh_token_digest verified, hc_certificate_id = vh_certificate_id verified,
            hc_completion = completion\<rparr>)))))))))))"

definition journal_status ::
  "('j, 'x) journal_env_scheme \<Rightarrow> Trust \<Rightarrow> JournalScope \<Rightarrow> 'j journal_db \<Rightarrow> JournalStatus res" where
  "journal_status E trust scope db =
     and_then (journal_read E trust scope db) (\<lambda>h.
       Inr \<lparr>ts_request = map_option r_request (hi_head h),
            ts_acknowledgements = (case hi_head h of None \<Rightarrow> (False, False) | Some r \<Rightarrow> r_acknowledgements r),
            ts_completion = (case hi_head h of None \<Rightarrow> None | Some r \<Rightarrow> r_completion r),
            ts_last_revision = hi_last_revision h, ts_aborted = of_int (len (hi_aborts h))\<rparr>)"

definition journal_acknowledge ::
  "('j, 'x) journal_env_scheme \<Rightarrow> TransitionPolicy \<Rightarrow> Trust \<Rightarrow> JournalScope \<Rightarrow> CommittedTransition
     \<Rightarrow> Participant \<Rightarrow> 'j journal_db \<Rightarrow> unit res \<times> 'j journal_db" where
  "journal_acknowledge E policy trust scope decision member db = transact db (
     and_then (journal_read E trust scope db) (\<lambda>history.
     ensure (abort_at history (q_revision (ct_request decision)) = None) ''transition revision aborted'' (
     and_then (ok_or (hi_head history) ''transition missing'') (\<lambda>r.
     and_then (loss_record_exists E trust db) (\<lambda>lost.
     ensure (\<not> lost) ''transition superseded by participant loss'' (
     ensure (r_request r = ct_request decision) ''transition handle is not current'' (
     and_then (committed E trust r) (\<lambda>c.
     ensure (ct_token_digest c = ct_token_digest decision) ''transition handle is not current'' (
     and_then (tp_continuity policy 0 scope (r_request r)) (\<lambda>_.
     and_then (ok_or (position (\<lambda>p. p = member) (q_participants (r_request r)))
                 ''transition member mismatch'') (\<lambda>index.
       if at (r_acknowledgements r) index then Inr (Inr (), db)
       else
         and_then (tp_applied policy scope decision member) (\<lambda>_.
         and_then (tp_continuity policy 1 scope (r_request r)) (\<lambda>_.
         and_then (replace_transition E
             (r\<lparr>r_acknowledgements := put (r_acknowledgements r) index True\<rparr>) db) (\<lambda>db'.
           Inr (Inr (), db')))))))))))))))"

definition journal_complete ::
  "('j, 'x) journal_env_scheme \<Rightarrow> TransitionPolicy \<Rightarrow> Trust \<Rightarrow> JournalScope \<Rightarrow> CommittedTransition
     \<Rightarrow> Id \<Rightarrow> 'j journal_db \<Rightarrow> unit res \<times> 'j journal_db" where
  "journal_complete E policy trust scope decision completion db = transact db (
     ensure (completion \<noteq> 0) ''zero transition completion'' (
     and_then (journal_read E trust scope db) (\<lambda>history.
     ensure (abort_at history (q_revision (ct_request decision)) = None) ''transition revision aborted'' (
     and_then (ok_or (hi_head history) ''transition missing'') (\<lambda>r.
     and_then (loss_record_exists E trust db) (\<lambda>lost.
     ensure (\<not> lost) ''transition superseded by participant loss'' (
     ensure (r_request r = ct_request decision) ''transition completion evidence missing'' (
     and_then (committed E trust r) (\<lambda>c.
     ensure (ct_token_digest c = ct_token_digest decision \<and> r_acknowledgements r = (True, True))
       ''transition completion evidence missing'' (
     and_then (tp_continuity policy 0 scope (r_request r)) (\<lambda>_.
       case r_completion r of
         Some old \<Rightarrow>
           Inr (ensure (old = completion) ''immutable transition completion conflict'' (Inr ()), db)
       | None \<Rightarrow>
           and_then (replace_transition E (r\<lparr>r_completion := Some completion\<rparr>) db) (\<lambda>db'.
             Inr (Inr (), db')))))))))))))"

definition head_continuity :: "TransitionPolicy \<Rightarrow> nat \<Rightarrow> JournalScope \<Rightarrow> History \<Rightarrow> unit res" where
  "head_continuity policy n scope history =
     (case hi_head history of
        None \<Rightarrow> Inr ()
      | Some head \<Rightarrow> tp_continuity policy n scope (r_request head))"

definition abort_target ::
  "('j, 'x) journal_env_scheme \<Rightarrow> History \<Rightarrow> MaintenanceAbort \<Rightarrow> unit res" where
  "abort_target E history abort =
     (if is_some_and (hi_head history) (\<lambda>r. q_revision (r_request r) = a_aborted_revision abort)
      then and_then (ok_or (hi_head history) ''transition missing'') (decided_abort E abort)
      else
        ensure (\<not> a_decided abort) ''maintenance abort target mismatch'' (
        and_then (ok_or (checked_add (hi_last_revision history) 1) ''transition revision overflow'') (\<lambda>next.
        ensure (a_aborted_revision abort = next) ''maintenance abort target mismatch'' (
        ensure (is_none_or (hi_head history) (\<lambda>r. r_completion r \<noteq> None))
          ''decided transition must be aborted first'' (Inr ())))))"

definition journal_abort ::
  "('j, 'x) journal_env_scheme \<Rightarrow> TransitionPolicy \<Rightarrow> Trust \<Rightarrow> JournalScope \<Rightarrow> MaintenanceAbort \<Rightarrow> string
     \<Rightarrow> u64 \<Rightarrow> 'j journal_db \<Rightarrow> CommittedMaintenanceAbort res \<times> 'j journal_db" where
  "journal_abort E policy trust scope abort token now db = transact db (
     and_then (maintenance_abort_validate abort) (\<lambda>_.
     ensure (len token \<le> MAX_TOKEN) ''token limit'' (
     and_then (journal_read E trust scope db) (\<lambda>history.
     ensure (\<not> successor_parent_exists db) ''maintenance abort is not available in a successor journal'' (
     and_then (loss_record_exists E trust db) (\<lambda>lost.
     ensure (\<not> lost) ''maintenance abort superseded by participant loss'' (
     ensure (scope_binds_abort scope abort) ''maintenance abort scope binding'' (
     and_then (head_continuity policy 0 scope history) (\<lambda>_.
       case abort_at history (a_aborted_revision abort) of
         Some existing \<Rightarrow>
           ensure (ar_abort existing = abort \<and> ar_token existing = token)
             ''immutable maintenance abort conflict'' (
           and_then (head_continuity policy 1 scope history) (\<lambda>_.
             Inr (committed_abort E trust existing, db)))
       | None \<Rightarrow>
           and_then (abort_target E history abort) (\<lambda>_.
           ensure (len (hi_aborts history) < MAX_ABORT_ROWS) ''transition abort row limit'' (
           and_then (tp_abort_applicable policy scope abort) (\<lambda>_.
           and_then (verify_abort_issuance E token trust abort now) (\<lambda>certificate.
           and_then (head_continuity policy 1 scope history) (\<lambda>_.
             let record = \<lparr>ar_format = 2, ar_abort = abort, ar_token = token,
                           ar_certificate_id = certificate\<rparr> in
             and_then (save_abort E record db) (\<lambda>db'.
             ensure (jd_head db' \<noteq> None) ''transition head update failed'' (
               Inr (committed_abort E trust record,
                 db'\<lparr>jd_head := Some (max (hi_last_revision history) (a_aborted_revision abort))\<rparr>)))))))))))))))))"

definition fetch_abort ::
  "('j, 'x) journal_env_scheme \<Rightarrow> TransitionPolicy \<Rightarrow> Trust \<Rightarrow> JournalScope \<Rightarrow> TransitionRequest
     \<Rightarrow> 'j journal_db \<Rightarrow> CommittedMaintenanceAbort res" where
  "fetch_abort E policy trust scope request db =
     and_then (request_digest E request) (\<lambda>digest.
     and_then (journal_read E trust scope db) (\<lambda>history.
     and_then (ok_or (find (\<lambda>(_, r). a_aborted_request (ar_abort r) = digest
           \<and> a_aborted_request_id (ar_abort r) = q_id request) (hi_aborts history))
         ''maintenance abort missing'') (\<lambda>(_, record).
     and_then (head_continuity policy 0 scope history) (\<lambda>_.
       committed_abort E trust record))))"

section \<open>The reading loop\<close>

lemma scan_rows_append:
  "scan_rows E trust scope select st (rows @ rest) =
     and_then (scan_rows E trust scope select st rows) (\<lambda>st'. scan_rows E trust scope select st' rest)"
proof (induction rows arbitrary: st)
  case (Cons entry rows)
  then show ?case by (cases "scan_row E trust scope select st entry") simp_all
qed simp

lemma scan_rows_snoc:
  "scan_rows E trust scope select st (rows @ [entry]) =
     and_then (scan_rows E trust scope select st rows) (\<lambda>st'. scan_row E trust scope select st' entry)"
  by (cases "scan_rows E trust scope select st rows"; simp add: scan_rows_append)
     (metis and_then_simps sum.exhaust)

lemma read_history_row_Inr:
  "read_history_row E trust (n, json, digest) = Inr r \<longleftrightarrow>
     row_intact E (json, digest) \<and> record_dec E json = Some r
   \<and> is_none_or (r_completion r) (\<lambda>c. c \<noteq> 0 \<and> r_acknowledgements r = (True, True))
   \<and> n = q_revision (r_request r) \<and> (\<exists>v. verify_historical E (r_token r) trust (r_request r) = Inr v)"
  by (auto simp: read_history_row_def row_intact_def res_simps)

lemma read_history_row_revision:
  "read_history_row E trust entry = Inr r \<Longrightarrow> fst entry = q_revision (r_request r)"
  by (cases entry) (auto simp: read_history_row_Inr)

lemma scan_settle_Inr:
  "scan_settle E select record st = Inr st' \<longleftrightarrow>
     (if sn_pending st \<noteq> [] \<and> fst (hd (sn_pending st)) = q_revision (r_request record)
      then decided_abort E (ar_abort (snd (hd (sn_pending st)))) record = Inr ()
         \<and> st' = scan_note select record (st\<lparr>sn_pending := tl (sn_pending st)\<rparr>)
      else st' = scan_live record (scan_note select record st))"
  by (auto simp: scan_settle_def res_simps split: list.splits)

lemma scan_row_Inr:
  "scan_row E trust scope select st entry = Inr st' \<longleftrightarrow>
     (\<exists>consumed pending record.
        flush_aborts scope (\<lambda>a. a < fst entry) (sn_effective st) (sn_consumed st) (sn_pending st)
          = Inr (consumed, pending)
      \<and> read_history_row E trust entry = Inr record
      \<and> q_id (r_request record) \<notin> set (sn_ids st)
      \<and> chain scope (sn_effective st) consumed record = Inr ()
      \<and> scan_settle E select record (st\<lparr>sn_pending := pending\<rparr>) = Inr st')"
  by (auto simp: scan_row_def res_simps)

section \<open>Revisions are consumed without gaps\<close>

text \<open>
  \<open>gapless scope S consumed\<close>: the revisions in \<open>S\<close> are those from the scope's initial one up to the
  last one consumed.
\<close>

definition gapless :: "JournalScope \<Rightarrow> u64 set \<Rightarrow> u64 option \<Rightarrow> bool" where
  "gapless scope S consumed \<longleftrightarrow>
     (case consumed of
        None \<Rightarrow> S = {}
      | Some c \<Rightarrow> js_initial_revision scope \<le> c \<and> S = {js_initial_revision scope..c})"

lemma expected_revision_Inr:
  "expected_revision scope consumed = Inr k \<longleftrightarrow>
     (case consumed of None \<Rightarrow> k = js_initial_revision scope | Some c \<Rightarrow> unat k = Suc (unat c))"
  by (auto simp: expected_revision_def res_simps checked_add_one split: option.splits)

lemma word_interval_Suc:
  fixes a b c :: u64
  assumes "unat c = Suc (unat b)" "a \<le> b"
  shows "insert c {a..b} = {a..c}"
  using assms by (auto simp: word_le_nat_alt word_unat_eq_iff)

lemma gapless_next:
  assumes "gapless scope S consumed" "expected_revision scope consumed = Inr k"
  shows "gapless scope (insert k S) (Some k)" "\<forall>x \<in> S. x < k"
  using assms
  by (auto simp: gapless_def expected_revision_Inr word_interval_Suc word_le_nat_alt word_less_nat_alt
      split: option.splits)

text \<open>The aborts a key is stored under: the revision they abort.\<close>

definition keyed :: "(u64 \<times> AbortRecord) list \<Rightarrow> bool" where
  "keyed aborts \<longleftrightarrow> (\<forall>(a, r) \<in> set aborts. a_aborted_revision (ar_abort r) = a)"

lemma keyed_simps [simp]:
  "keyed []"
  "keyed ((a, r) # aborts) \<longleftrightarrow> a_aborted_revision (ar_abort r) = a \<and> keyed aborts"
  "keyed (xs @ ys) \<longleftrightarrow> keyed xs \<and> keyed ys"
  by (auto simp: keyed_def)

lemma undecided_abort_Inr:
  "undecided_abort scope r consumed effective = Inr u \<longleftrightarrow>
     expected_revision scope consumed = Inr (a_aborted_revision (ar_abort r))
   \<and> \<not> a_decided (ar_abort r) \<and> is_none_or effective (\<lambda>r. r_completion r \<noteq> None)"
  by (auto simp: undecided_abort_def res_simps)

lemma flush_aborts_inv:
  assumes "flush_aborts scope due effective consumed pending = Inr (consumed', pending')"
    and "gapless scope S consumed" "keyed pending"
  shows "\<exists>past. pending = past @ pending' \<and> gapless scope (S \<union> fst ` set past) consumed'
    \<and> (\<forall>x \<in> set past. due (fst x) \<and> (\<forall>y \<in> S. y < fst x))
    \<and> (past = [] \<and> consumed' = consumed \<or> is_none_or effective (\<lambda>r. r_completion r \<noteq> None))"
  using assms
proof (induction pending arbitrary: consumed S)
  case (Cons x pending)
  obtain a r where x: "x = (a, r)" by (cases x)
  show ?case
  proof (cases "due a")
    case True
    have u: "expected_revision scope consumed = Inr a" "is_none_or effective (\<lambda>r. r_completion r \<noteq> None)"
      and f: "flush_aborts scope due effective (Some a) pending = Inr (consumed', pending')"
      using Cons.prems True by (auto simp: x undecided_abort_Inr and_then_Inr)
    from Cons.IH [OF f gapless_next(1) [OF Cons.prems(2) u(1)]] Cons.prems(3)
    obtain past where "pending = past @ pending'" "gapless scope (insert a S \<union> fst ` set past) consumed'"
      "\<forall>x \<in> set past. due (fst x) \<and> (\<forall>y \<in> insert a S. y < fst x)"
      by (auto simp: x)
    then show ?thesis
      using True u(2) gapless_next(2) [OF Cons.prems(2) u(1)]
      by (intro exI [of _ "x # past"]) (auto simp: x)
  next
    case False
    with Cons.prems show ?thesis by (auto simp: x)
  qed
qed simp

lemma flush_all:
  "flush_aborts scope (\<lambda>_. True) effective consumed pending = Inr (consumed', pending') \<Longrightarrow> pending' = []"
  by (induction pending arbitrary: consumed) (auto simp: and_then_Inr)

lemma chain_revision:
  "chain scope effective consumed r = Inr u \<Longrightarrow> expected_revision scope consumed = Inr (q_revision (r_request r))"
  by (auto simp: chain_def Let_def res_simps split: option.splits)

lemma chain_completed:
  "chain scope effective consumed r = Inr u \<Longrightarrow> is_none_or effective (\<lambda>p. r_completion p \<noteq> None)"
  by (cases effective) (auto simp: chain_def Let_def res_simps)

text \<open>What the loop maintains after the rows \<open>rows\<close>, with \<open>aborts\<close> all the aborts of the journal.\<close>

definition scan_inv :: "JournalScope \<Rightarrow> u64 option \<Rightarrow> (u64 \<times> AbortRecord) list \<Rightarrow> 'j row table \<Rightarrow> Scan \<Rightarrow> bool" where
  "scan_inv scope select aborts rows st \<longleftrightarrow>
     (\<exists>past. aborts = past @ sn_pending st
        \<and> gapless scope (fst ` set rows \<union> fst ` set past) (sn_consumed st)
        \<and> (\<forall>r. sn_effective st = Some r \<longrightarrow> q_revision (r_request r) \<in> fst ` set rows - fst ` set past))
   \<and> (sn_effective st = None \<longrightarrow> sn_completed st = None)
   \<and> (\<forall>r. sn_effective st = Some r \<and> r_completion r \<noteq> None \<longrightarrow> sn_completed st = Some r)
   \<and> (\<forall>n. select = Some n \<and> n \<notin> fst ` set rows \<longrightarrow> sn_selected st = None)
   \<and> (\<forall>r. sn_effective st = Some r \<and> select = Some (q_revision (r_request r)) \<longrightarrow> sn_selected st = Some r)"

lemma scan_inv_start: "scan_inv scope select aborts [] (scan_start aborts)"
  by (simp add: scan_inv_def scan_start_def gapless_def)

lemma scan_inv_flush:
  assumes "scan_inv scope select aborts rows st" "keyed aborts"
    and "flush_aborts scope due (sn_effective st) (sn_consumed st) (sn_pending st) = Inr (consumed, pending)"
  shows "scan_inv scope select aborts rows (st\<lparr>sn_consumed := consumed, sn_pending := pending\<rparr>)"
proof -
  obtain past where past: "aborts = past @ sn_pending st"
    "gapless scope (fst ` set rows \<union> fst ` set past) (sn_consumed st)"
    and e: "\<forall>r. sn_effective st = Some r \<longrightarrow> q_revision (r_request r) \<in> fst ` set rows - fst ` set past"
    using assms(1) by (auto simp: scan_inv_def)
  obtain more where more: "sn_pending st = more @ pending"
    "gapless scope (fst ` set rows \<union> fst ` set past \<union> fst ` set more) consumed"
    "\<forall>x \<in> set more. \<forall>y \<in> fst ` set rows \<union> fst ` set past. y < fst x"
    using flush_aborts_inv [OF assms(3) past(2)] assms(2) past(1) by auto
  have "q_revision (r_request r) \<notin> fst ` set more" if "sn_effective st = Some r" for r
    using e that more(3) by fastforce
  with past e more assms(1) show ?thesis
    unfolding scan_inv_def by (intro conjI exI [of _ "past @ more"]) (auto simp: Un_assoc image_Un)
qed

lemma scan_inv_settle:
  assumes inv: "scan_inv scope select aborts rows st"
    and ch: "chain scope (sn_effective st) (sn_consumed st) record = Inr ()"
    and rec: "fst entry = q_revision (r_request record)"
    and st': "scan_settle E select record st = Inr st'"
  shows "scan_inv scope select aborts (rows @ [entry]) st'"
proof -
  let ?k = "q_revision (r_request record)"
  obtain past where past: "aborts = past @ sn_pending st"
    "gapless scope (fst ` set rows \<union> fst ` set past) (sn_consumed st)"
    and e: "\<forall>r. sn_effective st = Some r \<longrightarrow> q_revision (r_request r) \<in> fst ` set rows - fst ` set past"
    using inv by (auto simp: scan_inv_def)
  have g: "gapless scope (insert ?k (fst ` set rows \<union> fst ` set past)) (Some ?k)"
    and new: "\<forall>x \<in> fst ` set rows \<union> fst ` set past. x < ?k"
    using gapless_next [OF past(2) chain_revision [OF ch]] by blast+
  show ?thesis
  proof (cases "sn_pending st \<noteq> [] \<and> fst (hd (sn_pending st)) = ?k")
    case True
    then have st'': "st' = scan_note select record (st\<lparr>sn_pending := tl (sn_pending st)\<rparr>)"
      using st' by (simp add: scan_settle_Inr)
    have "aborts = (past @ [hd (sn_pending st)]) @ sn_pending st'"
      using past(1) True by (simp add: st'' scan_note_def)
    moreover have "gapless scope (fst ` set (rows @ [entry]) \<union> fst ` set (past @ [hd (sn_pending st)])) (sn_consumed st')"
      using g True rec by (simp add: st'' scan_note_def insert_commute)
    moreover have "q_revision (r_request r) \<noteq> ?k" if "sn_effective st = Some r" for r
      using e new that by fastforce
    ultimately show ?thesis
      using inv e True rec new unfolding scan_inv_def
      by (intro conjI exI [of _ "past @ [hd (sn_pending st)]"]) (auto simp: st'' scan_note_def)
  next
    case False
    then have st'': "st' = scan_live record (scan_note select record st)"
      using st' by (simp add: scan_settle_Inr split: if_splits)
    have "gapless scope (fst ` set (rows @ [entry]) \<union> fst ` set past) (sn_consumed st')"
      using g rec by (simp add: st'' scan_note_def scan_live_def)
    moreover have "?k \<notin> fst ` set past" using new by auto
    ultimately show ?thesis
      using inv past(1) rec chain_completed [OF ch] unfolding scan_inv_def
      by (intro conjI exI [of _ past]) (auto simp: st'' scan_note_def scan_live_def)
  qed
qed

lemma scan_row_inv:
  assumes "scan_inv scope select aborts rows st" "keyed aborts"
    and "scan_row E trust scope select st entry = Inr st'"
  shows "scan_inv scope select aborts (rows @ [entry]) st'"
proof -
  obtain consumed pending rc where
    f: "flush_aborts scope (\<lambda>a. a < fst entry) (sn_effective st) (sn_consumed st) (sn_pending st)
          = Inr (consumed, pending)"
    and r: "read_history_row E trust entry = Inr rc" "chain scope (sn_effective st) consumed rc = Inr ()"
      "scan_settle E select rc (st\<lparr>sn_pending := pending\<rparr>) = Inr st'"
    using assms(3) by (auto simp: scan_row_Inr)
  let ?st = "st\<lparr>sn_consumed := consumed, sn_pending := pending\<rparr>"
  have "scan_settle E select rc ?st = Inr st'"
    using r(3) by (auto simp: scan_settle_Inr scan_note_def split: if_splits)
  then show ?thesis
    using scan_inv_settle [of scope select aborts rows ?st rc entry E st']
      scan_inv_flush [OF assms(1,2) f] r(2) read_history_row_revision [OF r(1)] by simp
qed

lemma scan_rows_inv:
  assumes "keyed aborts"
  shows "scan_rows E trust scope select (scan_start aborts) rows = Inr st \<Longrightarrow>
    scan_inv scope select aborts rows st"
proof (induction rows arbitrary: st rule: rev_induct)
  case Nil
  then show ?case using scan_inv_start by fastforce
next
  case (snoc entry rows)
  then obtain st0 where "scan_rows E trust scope select (scan_start aborts) rows = Inr st0"
    "scan_row E trust scope select st0 entry = Inr st"
    by (auto simp: scan_rows_snoc and_then_Inr)
  then show ?case using snoc.IH scan_row_inv [OF _ assms] by blast
qed

section \<open>Reading the aborts\<close>

lemma read_abort_row_Inr:
  "read_abort_row E trust scope (n, json, digest) = Inr r \<longleftrightarrow>
     row_intact E (json, digest) \<and> abort_dec E json = Some r \<and> ar_format r = 2
   \<and> maintenance_abort_validate (ar_abort r) = Inr () \<and> n = a_aborted_revision (ar_abort r)
   \<and> scope_binds_abort scope (ar_abort r)
   \<and> verify_abort_historical E (ar_token r) trust (ar_abort r) = Inr (ar_certificate_id r)"
  by (auto simp: read_abort_row_def row_intact_def res_simps)

lemma read_abort_rows_append:
  "read_abort_rows E trust scope acc (rows @ rest) =
     and_then (read_abort_rows E trust scope acc rows) (\<lambda>acc'. read_abort_rows E trust scope acc' rest)"
proof (induction rows arbitrary: acc)
  case (Cons entry rows)
  then show ?case by (cases "read_abort_row E trust scope entry") (simp_all add: ensure_def)
qed simp

definition distinct_aborts :: "AbortRecord \<Rightarrow> (u64 \<times> AbortRecord) list \<Rightarrow> bool" where
  "distinct_aborts r aborts \<longleftrightarrow>
     list_all (\<lambda>(_, r'). a_id (ar_abort r') \<noteq> a_id (ar_abort r)
       \<and> a_aborted_request_id (ar_abort r') \<noteq> a_aborted_request_id (ar_abort r)) aborts"

lemma read_abort_rows_snoc:
  "read_abort_rows E trust scope acc (rows @ [entry]) = Inr aborts \<longleftrightarrow>
     (\<exists>acc' r. read_abort_rows E trust scope acc rows = Inr acc' \<and> read_abort_row E trust scope entry = Inr r
        \<and> distinct_aborts r acc' \<and> fst entry \<notin> fst ` set acc' \<and> aborts = acc' @ [(fst entry, r)])"
proof -
  have "list_all (\<lambda>(n, _). n \<noteq> fst entry) acc' \<longleftrightarrow> fst entry \<notin> fst ` set acc'" for acc' :: "(u64 \<times> AbortRecord) list"
    by (induction acc') auto
  then show ?thesis
    by (auto simp: read_abort_rows_append and_then_Inr ensure_Inr distinct_aborts_def)
qed

lemma read_abort_rows_keys:
  assumes "read_abort_rows E trust scope [] rows = Inr aborts"
  shows "map fst aborts = map fst rows \<and> keyed aborts"
  using assms
proof (induction rows arbitrary: aborts rule: rev_induct)
  case (snoc entry rows)
  then show ?case
    by (cases entry) (auto simp: read_abort_rows_snoc read_abort_row_Inr)
qed simp

definition abort_rows :: "'j journal_db \<Rightarrow> 'j row table" where
  "abort_rows db = (case jd_abort db of None \<Rightarrow> [] | Some t \<Rightarrow> t)"

lemma read_aborts_Inr:
  "read_aborts E trust scope db = Inr aborts \<longleftrightarrow>
     len (abort_rows db) \<le> MAX_ABORT_ROWS
   \<and> (\<forall>row \<in> set (map snd (abort_rows db)). j_chars E (fst row) \<le> MAX_JOURNAL_RECORD)
   \<and> read_abort_rows E trust scope [] (abort_rows db) = Inr aborts"
  by (cases "jd_abort db") (simp_all add: read_aborts_def abort_rows_def res_simps MAX_ABORT_ROWS_def conj_assoc)

lemma read_aborts_keys:
  "read_aborts E trust scope db = Inr aborts \<Longrightarrow> map fst aborts = map fst (abort_rows db) \<and> keyed aborts"
  using read_abort_rows_keys unfolding read_aborts_Inr by blast

section \<open>What a successful read says\<close>

text \<open>The part of the reading after the loop, as a function of the loop's final state.\<close>

definition read_ok ::
  "('j, 'x) journal_env_scheme \<Rightarrow> Trust \<Rightarrow> JournalScope \<Rightarrow> 'j journal_db \<Rightarrow> bool" where
  "read_ok E trust scope db \<longleftrightarrow>
     tr_profile trust = js_profile scope \<and> validate_successor_parent E trust scope db = Inr ()
   \<and> ensure_journal_format E scope db = Inr ()"

lemma read_with_revision_Inr:
  "read_with_revision E trust scope select db = Inr (h, sel) \<longleftrightarrow>
     read_ok E trust scope db
   \<and> (\<exists>aborts st consumed.
        read_aborts E trust scope db = Inr aborts
      \<and> scan_rows E trust scope select (scan_start aborts) (jd_history db) = Inr st
      \<and> flush_aborts scope (\<lambda>_. True) (sn_effective st) (sn_consumed st) (sn_pending st) = Inr (consumed, [])
      \<and> jd_head db = Some (last_of scope consumed)
      \<and> h = history_of scope aborts st consumed \<and> sel = sn_selected st)"
  by (cases "jd_head db")
     (auto simp: read_with_revision_def read_ok_def and_then_Inr ensure_Inr dest: flush_all)

lemma read_inv:
  assumes "read_with_revision E trust scope select db = Inr (h, sel)"
  shows "gapless scope (fst ` set (jd_history db) \<union> fst ` set (hi_aborts h)) (hi_consumed h)"
    and "hi_last_revision h = last_of scope (hi_consumed h)"
    and "hi_head h = None \<Longrightarrow> hi_completed h = None"
    and "hi_head h = Some r \<Longrightarrow> r_completion r \<noteq> None \<Longrightarrow> hi_completed h = Some r"
    and "hi_head h = Some r \<Longrightarrow>
      q_revision (r_request r) \<in> fst ` set (jd_history db) - fst ` set (hi_aborts h)"
    and "hi_head h = Some r \<Longrightarrow> select = Some (q_revision (r_request r)) \<Longrightarrow> sel = Some r"
    and "select = Some n \<Longrightarrow> n \<notin> fst ` set (jd_history db) \<Longrightarrow> sel = None"
    and "map fst (hi_aborts h) = map fst (abort_rows db)" "keyed (hi_aborts h)"
proof -
  obtain aborts st consumed where r: "read_aborts E trust scope db = Inr aborts"
    "scan_rows E trust scope select (scan_start aborts) (jd_history db) = Inr st"
    "flush_aborts scope (\<lambda>_. True) (sn_effective st) (sn_consumed st) (sn_pending st) = Inr (consumed, [])"
    and h: "h = history_of scope aborts st consumed" "sel = sn_selected st"
    using assms by (auto simp: read_with_revision_Inr)
  have k: "map fst aborts = map fst (abort_rows db)" "keyed aborts"
    using read_aborts_keys [OF r(1)] by simp_all
  have inv: "scan_inv scope select aborts (jd_history db) (st\<lparr>sn_consumed := consumed, sn_pending := []\<rparr>)"
    using scan_inv_flush [OF scan_rows_inv [OF k(2) r(2)] k(2) r(3)] .
  show "gapless scope (fst ` set (jd_history db) \<union> fst ` set (hi_aborts h)) (hi_consumed h)"
    "hi_last_revision h = last_of scope (hi_consumed h)"
    "hi_head h = None \<Longrightarrow> hi_completed h = None"
    "hi_head h = Some r \<Longrightarrow> r_completion r \<noteq> None \<Longrightarrow> hi_completed h = Some r"
    "hi_head h = Some r \<Longrightarrow> q_revision (r_request r) \<in> fst ` set (jd_history db) - fst ` set (hi_aborts h)"
    "hi_head h = Some r \<Longrightarrow> select = Some (q_revision (r_request r)) \<Longrightarrow> sel = Some r"
    "select = Some n \<Longrightarrow> n \<notin> fst ` set (jd_history db) \<Longrightarrow> sel = None"
    using inv by (auto simp: scan_inv_def h history_of_def)
  show "map fst (hi_aborts h) = map fst (abort_rows db)" "keyed (hi_aborts h)"
    using k by (simp_all add: h history_of_def)
qed

text \<open>An open head is the last row, and nothing was consumed after it.\<close>

lemma open_head:
  assumes "read_with_revision E trust scope select db = Inr (h, sel)"
    and "hi_head h = Some r" "r_completion r = None"
  shows "\<exists>rows row st consumed.
      jd_history db = rows @ [(q_revision (r_request r), row)]
    \<and> read_aborts E trust scope db = Inr (hi_aborts h)
    \<and> scan_rows E trust scope select (scan_start (hi_aborts h)) rows = Inr st
    \<and> flush_aborts scope (\<lambda>a. a < q_revision (r_request r)) (sn_effective st) (sn_consumed st) (sn_pending st)
        = Inr (consumed, [])
    \<and> read_history_row E trust (q_revision (r_request r), row) = Inr r
    \<and> q_id (r_request r) \<notin> set (sn_ids st) \<and> chain scope (sn_effective st) consumed r = Inr ()
    \<and> h = history_of scope (hi_aborts h) (scan_live r (scan_note select r (st\<lparr>sn_pending := []\<rparr>)))
            (Some (q_revision (r_request r)))
    \<and> sel = (if select = Some (q_revision (r_request r)) then Some r else sn_selected st)
    \<and> jd_head db = Some (q_revision (r_request r))"
proof -
  obtain st consumed where r: "read_aborts E trust scope db = Inr (hi_aborts h)"
    "scan_rows E trust scope select (scan_start (hi_aborts h)) (jd_history db) = Inr st"
    and f: "flush_aborts scope (\<lambda>_. True) (sn_effective st) (sn_consumed st) (sn_pending st) = Inr (consumed, [])"
    and h: "h = history_of scope (hi_aborts h) st consumed" "sel = sn_selected st"
      "jd_head db = Some (last_of scope consumed)"
    using assms(1) by (auto simp: read_with_revision_Inr history_of_def)
  have e: "sn_effective st = Some r"
    using arg_cong [OF h(1), of hi_head] assms(2) by (simp add: history_of_def)
  have fin: "sn_pending st = []" "consumed = sn_consumed st"
    using f e assms(3) by (cases "sn_pending st"; auto simp: and_then_Inr undecided_abort_Inr)+
  show ?thesis
  proof (cases "jd_history db" rule: rev_cases)
    case Nil
    with r(2) e show ?thesis by (auto simp: scan_start_def)
  next
    case (snoc rows entry)
    then obtain st0 c0 p rc where s: "scan_rows E trust scope select (scan_start (hi_aborts h)) rows = Inr st0"
      "flush_aborts scope (\<lambda>a. a < fst entry) (sn_effective st0) (sn_consumed st0) (sn_pending st0) = Inr (c0, p)"
      "read_history_row E trust entry = Inr rc" "q_id (r_request rc) \<notin> set (sn_ids st0)"
      "chain scope (sn_effective st0) c0 rc = Inr ()" "scan_settle E select rc (st0\<lparr>sn_pending := p\<rparr>) = Inr st"
      using r(2) by (auto simp: scan_rows_snoc and_then_Inr scan_row_Inr)
    have "\<not> (p \<noteq> [] \<and> fst (hd p) = q_revision (r_request rc))"
      using s(6) e assms(3) chain_completed [OF s(5)] by (auto simp: scan_settle_Inr scan_note_def)
    then have st: "st = scan_live rc (scan_note select rc (st0\<lparr>sn_pending := p\<rparr>))"
      using s(6) by (simp add: scan_settle_Inr split: if_splits)
    then have rc: "rc = r" "p = []"
      using e fin by (simp_all add: scan_live_def scan_note_def)
    then have c: "consumed = Some (q_revision (r_request r))"
      using fin st by (simp add: scan_live_def scan_note_def)
    obtain row where entry: "entry = (q_revision (r_request r), row)"
      using read_history_row_revision [OF s(3)] rc by (metis prod.collapse)
    have sel: "sel = (if select = Some (q_revision (r_request r)) then Some r else sn_selected st0)"
      by (simp add: h(2) st rc scan_live_def scan_note_def)
    have head: "jd_head db = Some (q_revision (r_request r))"
      by (simp add: h(3) c last_of_def)
    show ?thesis
      using snoc r(1) s(1-5) h(1) sel head unfolding st rc c entry fst_conv
      by (intro exI [of _ rows] exI [of _ row] exI [of _ st0] exI [of _ c0] conjI)
  qed
qed

text \<open>Selecting a revision does not change the history that is read.\<close>

definition unselect :: "Scan \<Rightarrow> Scan" where
  "unselect st = st\<lparr>sn_selected := None\<rparr>"

lemma unselect_simps [simp]:
  "sn_pending (unselect st) = sn_pending st" "sn_effective (unselect st) = sn_effective st"
  "sn_completed (unselect st) = sn_completed st" "sn_consumed (unselect st) = sn_consumed st"
  "sn_ids (unselect st) = sn_ids st" "unselect (scan_start aborts) = scan_start aborts"
  by (simp_all add: unselect_def scan_start_def)

lemma scan_row_unselect:
  "scan_row E trust scope None (unselect st) entry =
     and_then (scan_row E trust scope select st entry) (\<lambda>st'. Inr (unselect st'))"
proof -
  have settle: "scan_settle E None rc ((unselect st)\<lparr>sn_pending := p\<rparr>) =
      and_then (scan_settle E select rc (st\<lparr>sn_pending := p\<rparr>)) (\<lambda>st'. Inr (unselect st'))" for rc p
  proof (cases p)
    case (Cons x rest)
    then show ?thesis
      by (cases x; cases "decided_abort E (ar_abort (snd x)) rc")
         (simp_all add: scan_settle_def scan_note_def scan_live_def unselect_def)
  qed (simp add: scan_settle_def scan_note_def scan_live_def unselect_def)
  show ?thesis
    by (cases "flush_aborts scope (\<lambda>a. a < fst entry) (sn_effective st) (sn_consumed st) (sn_pending st)";
        cases "read_history_row E trust entry")
       (auto simp: scan_row_def settle ensure_def and_then_def [of "chain _ _ _ _"] split: sum.splits)
qed

lemma scan_rows_unselect:
  "scan_rows E trust scope None (unselect st) rows =
     and_then (scan_rows E trust scope select st rows) (\<lambda>st'. Inr (unselect st'))"
proof (induction rows arbitrary: st)
  case (Cons entry rows)
  then show ?case
    by (cases "scan_row E trust scope select st entry")
       (simp_all add: scan_row_unselect [of E trust scope st entry select])
qed simp

lemma read_any_selection:
  "journal_read E trust scope db = Inr h \<longleftrightarrow> (\<exists>sel. read_with_revision E trust scope select db = Inr (h, sel))"
proof -
  have "scan_rows E trust scope None (scan_start aborts) rows =
      and_then (scan_rows E trust scope select (scan_start aborts) rows) (\<lambda>st'. Inr (unselect st'))" for aborts rows
    using scan_rows_unselect [of E trust scope "scan_start aborts"] by simp
  then show ?thesis
    by (auto simp: journal_read_def and_then_Inr read_with_revision_Inr history_of_def)
qed

section \<open>More aborts\<close>

text \<open>
  Aborts of revisions above the rows read so far stay pending and change nothing else.
\<close>

lemma flush_append:
  "flush_aborts scope due effective consumed (pending @ suffix) =
     and_then (flush_aborts scope due effective consumed pending) (\<lambda>(c, p).
       if p = [] then flush_aborts scope due effective c suffix else Inr (c, p @ suffix))"
proof (induction pending arbitrary: consumed)
  case (Cons x pending)
  obtain a r where x: "x = (a, r)" by (cases x)
  show ?case
    using Cons by (cases "undecided_abort scope r consumed effective") (simp_all add: x)
qed simp

lemma flush_not_due:
  "\<forall>x \<in> set suffix. \<not> due (fst x) \<Longrightarrow>
     flush_aborts scope due effective consumed suffix = Inr (consumed, suffix)"
  by (cases suffix) auto

definition postpone :: "(u64 \<times> AbortRecord) list \<Rightarrow> Scan \<Rightarrow> Scan" where
  "postpone suffix st = st\<lparr>sn_pending := sn_pending st @ suffix\<rparr>"

lemma postpone_simps [simp]:
  "sn_pending (postpone suffix st) = sn_pending st @ suffix"
  "sn_effective (postpone suffix st) = sn_effective st"
  "sn_completed (postpone suffix st) = sn_completed st"
  "sn_consumed (postpone suffix st) = sn_consumed st"
  "sn_selected (postpone suffix st) = sn_selected st" "sn_ids (postpone suffix st) = sn_ids st"
  "postpone suffix (scan_start aborts) = scan_start (aborts @ suffix)"
  by (simp_all add: postpone_def scan_start_def)

lemma scan_row_postpone:
  assumes "\<forall>x \<in> set suffix. fst entry < fst x" "scan_row E trust scope select st entry = Inr st'"
  shows "scan_row E trust scope select (postpone suffix st) entry = Inr (postpone suffix st')"
proof -
  obtain c p rc where
    s: "flush_aborts scope (\<lambda>a. a < fst entry) (sn_effective st) (sn_consumed st) (sn_pending st) = Inr (c, p)"
      "read_history_row E trust entry = Inr rc" "q_id (r_request rc) \<notin> set (sn_ids st)"
      "chain scope (sn_effective st) c rc = Inr ()" "scan_settle E select rc (st\<lparr>sn_pending := p\<rparr>) = Inr st'"
    using assms(2) by (auto simp: scan_row_Inr)
  have "\<forall>x \<in> set suffix. \<not> fst x < fst entry"
    using assms(1) by (auto dest: less_not_sym)
  then have "flush_aborts scope (\<lambda>a. a < fst entry) (sn_effective st) (sn_consumed st) (sn_pending st @ suffix)
      = Inr (c, p @ suffix)"
    by (simp add: flush_append s(1) flush_not_due)
  moreover have "scan_settle E select rc ((postpone suffix st)\<lparr>sn_pending := p @ suffix\<rparr>) = Inr (postpone suffix st')"
  proof (cases "p = []")
    case True
    then have "st' = scan_live rc (scan_note select rc (st\<lparr>sn_pending := []\<rparr>))"
      using s(5) by (simp add: scan_settle_def)
    moreover have "\<not> (suffix \<noteq> [] \<and> fst (hd suffix) = q_revision (r_request rc))"
      using assms(1) read_history_row_revision [OF s(2)] by (cases suffix) auto
    ultimately show ?thesis
      using True by (auto simp: scan_settle_Inr scan_live_def scan_note_def postpone_def)
  next
    case False
    then show ?thesis
      using s(5) by (auto simp: scan_settle_Inr scan_live_def scan_note_def postpone_def split: if_splits)
  qed
  ultimately show ?thesis using s(2-4) by (auto simp: scan_row_Inr)
qed

lemma scan_rows_postpone:
  assumes "\<forall>entry \<in> set rows. \<forall>x \<in> set suffix. fst entry < fst x"
    and "scan_rows E trust scope select (scan_start aborts) rows = Inr st"
  shows "scan_rows E trust scope select (scan_start (aborts @ suffix)) rows = Inr (postpone suffix st)"
  using assms
proof (induction rows arbitrary: st rule: rev_induct)
  case (snoc entry rows)
  then obtain st0 where st0: "scan_rows E trust scope select (scan_start aborts) rows = Inr st0"
    "scan_row E trust scope select st0 entry = Inr st"
    by (auto simp: scan_rows_snoc and_then_Inr)
  have "scan_rows E trust scope select (scan_start (aborts @ suffix)) rows = Inr (postpone suffix st0)"
    using snoc.IH [OF _ st0(1)] snoc.prems(1) by simp
  moreover have "scan_row E trust scope select (postpone suffix st0) entry = Inr (postpone suffix st)"
    using scan_row_postpone [OF _ st0(2)] snoc.prems(1) by simp
  ultimately show ?case by (simp add: scan_rows_snoc)
qed auto

section \<open>Reading after writing\<close>

lemma flush_due_all:
  "\<forall>x \<in> set pending. due (fst x) \<Longrightarrow>
     flush_aborts scope due effective consumed pending = flush_aborts scope (\<lambda>_. True) effective consumed pending"
proof (induction pending arbitrary: consumed)
  case (Cons x pending)
  obtain a r where x: "x = (a, r)" by (cases x)
  show ?case
    using Cons by (cases "undecided_abort scope r consumed effective") (simp_all add: x)
qed simp

lemma read_ok_frame [simp]:
  "read_ok E trust scope (db\<lparr>jd_head := new_head\<rparr>) = read_ok E trust scope db"
  "read_ok E trust scope (db\<lparr>jd_history := new_history\<rparr>) = read_ok E trust scope db"
  by (simp_all add: read_ok_def)

lemma abort_rows_frame [simp]:
  "abort_rows (db\<lparr>jd_scope := s\<rparr>) = abort_rows db" "abort_rows (db\<lparr>jd_head := x\<rparr>) = abort_rows db"
  "abort_rows (db\<lparr>jd_abort := Some t\<rparr>) = t"
  by (simp_all add: abort_rows_def)

lemma verify_issuance_historical:
  "verify_issuance E token trust q now = Inr v \<Longrightarrow> \<exists>v. verify_historical E token trust q = Inr v"
  by (auto simp: verify_issuance_Inr verify_historical_Inr)

lemma verify_abort_issuance_historical:
  "verify_abort_issuance E token trust a now = Inr i \<Longrightarrow> verify_abort_historical E token trust a = Inr i"
  by (auto simp: verify_abort_issuance_def verify_abort_historical_def verify_abort_def verify_signed_Inr
      in_window_def)

lemma decide_checks_Inr:
  "decide_checks E policy trust scope old request token now = Inr v \<longleftrightarrow>
     abort_at old (q_revision request) = None \<and> q_id request \<notin> set (hi_ids old)
   \<and> \<not> aborted_request_id old (q_id request)
   \<and> chain scope (hi_head old) (hi_consumed old) (fresh_record request token) = Inr ()
   \<and> verify_issuance E token trust request now = Inr v
   \<and> tp_prepared policy scope request (fst (q_participants request)) = Inr ()
   \<and> tp_prepared policy scope request (snd (q_participants request)) = Inr ()
   \<and> tp_continuity policy 1 scope request = Inr ()"
  by (auto simp: decide_checks_def res_simps)

definition decided_history :: "TransitionRequest \<Rightarrow> string \<Rightarrow> History \<Rightarrow> History" where
  "decided_history request token h =
     h\<lparr>hi_head := Some (fresh_record request token), hi_ids := q_id request # hi_ids h,
       hi_consumed := Some (q_revision request), hi_last_revision := q_revision request\<rparr>"

lemma decide_read:
  assumes lawful: "journal_lawful E" and read: "read_with_revision E trust scope select db = Inr (h, sel)"
    and checks: "decide_checks E policy trust scope h request token now = Inr v"
    and save: "save_transition E (fresh_record request token) db = Inr db'"
  shows "read_with_revision E trust scope select db' =
    Inr (decided_history request token h,
      if select = Some (q_revision request) then Some (fresh_record request token) else sel)"
proof -
  let ?k = "q_revision request" and ?r = "fresh_record request token"
  obtain aborts st consumed where ok: "read_ok E trust scope db" and r: "read_aborts E trust scope db = Inr aborts"
    "scan_rows E trust scope select (scan_start aborts) (jd_history db) = Inr st"
    "flush_aborts scope (\<lambda>_. True) (sn_effective st) (sn_consumed st) (sn_pending st) = Inr (consumed, [])"
    and h: "h = history_of scope aborts st consumed" "sel = sn_selected st"
    using read by (auto simp: read_with_revision_Inr)
  have chain: "chain scope (sn_effective st) consumed ?r = Inr ()" and ids: "q_id request \<notin> set (sn_ids st)"
    using checks by (simp_all add: decide_checks_Inr h history_of_def)
  have above: "\<forall>x \<in> fst ` set (jd_history db) \<union> fst ` set aborts. x < ?k"
    using gapless_next(2) [OF read_inv(1) [OF read]] chain_revision [OF chain]
    by (simp add: h history_of_def fresh_record_def)
  obtain json where json: "record_enc E ?r = Some json" "j_len E json \<le> MAX_JOURNAL_RECORD"
    and db': "db' = db\<lparr>jd_history := jd_history db @ [(?k, row_of E json)], jd_head := Some ?k\<rparr>"
    using save above
    by (auto simp: save_transition_def tab_insert_def tab_add_last res_simps MAX_JOURNAL_RECORD_def
        fresh_record_def split: if_splits)
  have row: "read_history_row E trust (?k, row_of E json) = Inr ?r"
    using json lawful_codecs(1) [OF lawful json(1)] checks verify_issuance_historical
      row_intact_row_of [OF json(2)]
    by (auto simp: read_history_row_Inr row_of_def fresh_record_def decide_checks_Inr)
  have "set (sn_pending st) \<subseteq> set aborts"
    using scan_rows_inv [OF _ r(2)] read_aborts_keys [OF r(1)] by (auto simp: scan_inv_def)
  then have "flush_aborts scope (\<lambda>a. a < ?k) (sn_effective st) (sn_consumed st) (sn_pending st) = Inr (consumed, [])"
    using above r(3) flush_due_all [of "sn_pending st" "\<lambda>a. a < ?k"] by fastforce
  then have "scan_rows E trust scope select (scan_start aborts) (jd_history db') =
      Inr (scan_live ?r (scan_note select ?r (st\<lparr>sn_pending := []\<rparr>)))"
    using r(2) row ids chain by (simp add: db' scan_rows_snoc scan_row_def scan_settle_def fresh_record_def)
  moreover have "read_aborts E trust scope db' = Inr aborts" "read_ok E trust scope db'"
    using r(1) ok by (simp_all add: db')
  ultimately show ?thesis
    by (auto simp: read_with_revision_Inr db' last_of_def h history_of_def decided_history_def
        scan_live_def scan_note_def fresh_record_def)
qed

definition replaced_history :: "TransitionRecord \<Rightarrow> History \<Rightarrow> History" where
  "replaced_history r h =
     h\<lparr>hi_head := Some r,
       hi_completed := (if r_completion r \<noteq> None then Some r else hi_completed h)\<rparr>"

lemma chain_request: "r_request r = r_request r' \<Longrightarrow> chain scope effective consumed r = chain scope effective consumed r'"
  by (simp add: chain_def)

lemma last_row_above:
  assumes "keyed aborts" "scan_rows E trust scope select (scan_start aborts) rows = Inr st"
    and "flush_aborts scope due (sn_effective st) (sn_consumed st) (sn_pending st) = Inr (consumed, [])"
    and "chain scope (sn_effective st) consumed r = Inr ()"
  shows "\<forall>x \<in> fst ` set rows \<union> fst ` set aborts. x < q_revision (r_request r)"
proof -
  obtain past where past: "aborts = past @ sn_pending st"
    "gapless scope (fst ` set rows \<union> fst ` set past) (sn_consumed st)"
    using scan_rows_inv [OF assms(1,2)] by (auto simp: scan_inv_def)
  have "gapless scope (fst ` set rows \<union> fst ` set aborts) consumed"
    using flush_aborts_inv [OF assms(3) past(2)] assms(1) past(1) by (auto simp: image_Un Un_assoc)
  then show ?thesis using gapless_next(2) chain_revision [OF assms(4)] by blast
qed

lemma replace_read:
  assumes lawful: "journal_lawful E" and read: "read_with_revision E trust scope select db = Inr (h, sel)"
    and head: "hi_head h = Some r" "r_completion r = None"
    and same: "r_request r' = r_request r" "r_token r' = r_token r"
      "is_none_or (r_completion r') (\<lambda>c. c \<noteq> 0 \<and> r_acknowledgements r' = (True, True))"
    and save: "replace_transition E r' db = Inr db'"
  shows "read_with_revision E trust scope select db' =
    Inr (replaced_history r' h, if select = Some (q_revision (r_request r)) then Some r' else sel)"
proof -
  let ?k = "q_revision (r_request r)"
  obtain rows row st consumed where
    rows: "jd_history db = rows @ [(?k, row)]" and aborts: "read_aborts E trust scope db = Inr (hi_aborts h)"
    and s: "scan_rows E trust scope select (scan_start (hi_aborts h)) rows = Inr st"
      "flush_aborts scope (\<lambda>a. a < ?k) (sn_effective st) (sn_consumed st) (sn_pending st) = Inr (consumed, [])"
    and old: "read_history_row E trust (?k, row) = Inr r" "q_id (r_request r) \<notin> set (sn_ids st)"
      "chain scope (sn_effective st) consumed r = Inr ()"
    and h: "h = history_of scope (hi_aborts h) (scan_live r (scan_note select r (st\<lparr>sn_pending := []\<rparr>))) (Some ?k)"
      "sel = (if select = Some ?k then Some r else sn_selected st)" "jd_head db = Some ?k"
    using open_head [OF read head] by blast
  have below: "?k \<notin> fst ` set rows"
    using last_row_above [OF read_inv(9) [OF read] s old(3)] by auto
  obtain json where json: "record_enc E r' = Some json" "j_len E json \<le> MAX_JOURNAL_RECORD"
    and db': "db' = db\<lparr>jd_history := rows @ [(?k, row_of E json)]\<rparr>"
    using save below rows same(1)
    by (auto simp: replace_transition_def tab_update_last res_simps MAX_JOURNAL_RECORD_def)
  have "read_history_row E trust (?k, row_of E json) = Inr r'"
    using json lawful_codecs(1) [OF lawful json(1)] row_intact_row_of [OF json(2)] old(1) same
    by (cases row) (auto simp: read_history_row_Inr row_of_def)
  then have "scan_rows E trust scope select (scan_start (hi_aborts h)) (jd_history db') =
      Inr (scan_live r' (scan_note select r' (st\<lparr>sn_pending := []\<rparr>)))"
    using s old(2,3) chain_request [OF same(1)] same(1)
    by (simp add: db' scan_rows_snoc scan_row_def scan_settle_def)
  moreover have "read_aborts E trust scope db' = Inr (hi_aborts h)" "read_ok E trust scope db'"
    using aborts read by (simp_all add: db' read_with_revision_Inr)
  ultimately have "read_with_revision E trust scope select db' =
      Inr (history_of scope (hi_aborts h) (scan_live r' (scan_note select r' (st\<lparr>sn_pending := []\<rparr>))) (Some ?k),
        if select = Some ?k then Some r' else sn_selected st)"
    using h(3) same(1) by (auto simp: read_with_revision_Inr db' last_of_def scan_live_def scan_note_def)
  moreover have "history_of scope (hi_aborts h) (scan_live r' (scan_note select r' (st\<lparr>sn_pending := []\<rparr>))) (Some ?k)
      = replaced_history r' (history_of scope (hi_aborts h) (scan_live r (scan_note select r (st\<lparr>sn_pending := []\<rparr>))) (Some ?k))"
    using same(1) head(2) by (simp add: history_of_def replaced_history_def scan_live_def scan_note_def)
  ultimately show ?thesis using h(1,2) by simp
qed

text \<open>The records an abort can add to the journal.\<close>

definition abort_addable ::
  "('j, 'x) journal_env_scheme \<Rightarrow> Trust \<Rightarrow> JournalScope \<Rightarrow> (u64 \<times> AbortRecord) list \<Rightarrow> AbortRecord \<Rightarrow> bool" where
  "abort_addable E trust scope aborts x \<longleftrightarrow>
     ar_format x = 2 \<and> maintenance_abort_validate (ar_abort x) = Inr () \<and> scope_binds_abort scope (ar_abort x)
   \<and> verify_abort_historical E (ar_token x) trust (ar_abort x) = Inr (ar_certificate_id x)
   \<and> distinct_aborts x aborts \<and> len aborts < MAX_ABORT_ROWS"

lemma save_abort_read:
  assumes lawful: "journal_lawful E" and aborts: "read_aborts E trust scope db = Inr aborts"
    and ok: "read_ok E trust scope db"
    and x: "abort_addable E trust scope aborts x"
    and above: "\<forall>k \<in> fst ` set aborts. k < a_aborted_revision (ar_abort x)"
    and save: "save_abort E x db = Inr db'"
  shows "read_aborts E trust scope db' = Inr (aborts @ [(a_aborted_revision (ar_abort x), x)])"
    and "read_ok E trust scope db'" "jd_history db' = jd_history db" "jd_head db' = jd_head db"
proof -
  let ?k = "a_aborted_revision (ar_abort x)"
  have keys: "map fst aborts = map fst (abort_rows db)" using read_aborts_keys [OF aborts] by simp
  then have above': "\<forall>k \<in> fst ` set (abort_rows db). k < ?k"
    using above by (metis list.set_map)
  obtain json where json: "abort_enc E x = Some json" "j_len E json \<le> MAX_JOURNAL_RECORD"
    and db': "\<exists>raw. db' = db\<lparr>jd_scope := Some raw, jd_abort := Some (abort_rows db @ [(?k, row_of E json)])\<rparr>"
    and mark: "\<exists>m. mark_journal_format_two E db = Inr m \<and> jd_scope db' = jd_scope m"
    using save above' mark_frame
    by (fastforce simp: save_abort_def tab_insert_def tab_add_last res_simps abort_rows_def [symmetric]
        split: if_splits)
  have "read_abort_row E trust scope (?k, row_of E json) = Inr x"
    using x row_intact_row_of [OF json(2)] lawful_codecs(2) [OF lawful json(1)]
    by (simp add: abort_addable_def read_abort_row_Inr row_of_def)
  moreover have "?k \<notin> fst ` set aborts" using above by auto
  ultimately have "read_abort_rows E trust scope [] (abort_rows db') = Inr (aborts @ [(?k, x)])"
    using db' aborts x by (auto simp: read_abort_rows_snoc read_aborts_Inr abort_addable_def)
  moreover have "len (abort_rows db') \<le> MAX_ABORT_ROWS"
    using db' x map_eq_imp_length_eq [OF keys] by (auto simp: abort_addable_def len_def)
  moreover have "\<forall>row \<in> set (map snd (abort_rows db')). j_chars E (fst row) \<le> MAX_JOURNAL_RECORD"
    using db' aborts json(2) lawful_codecs(8) [OF lawful, of json]
    by (auto simp: read_aborts_Inr row_of_def)
  ultimately show "read_aborts E trust scope db' = Inr (aborts @ [(?k, x)])"
    by (simp add: read_aborts_Inr)
  show "read_ok E trust scope db'"
    using ok db' mark mark_format_ok [OF lawful] by (fastforce simp: read_ok_def)
  show "jd_history db' = jd_history db" "jd_head db' = jd_head db"
    using db' by auto
qed

definition aborted_history :: "AbortRecord \<Rightarrow> History \<Rightarrow> History" where
  "aborted_history x h =
     (let k = a_aborted_revision (ar_abort x) in
      h\<lparr>hi_head := (if a_decided (ar_abort x) then hi_completed h else hi_head h),
        hi_aborts := hi_aborts h @ [(k, x)], hi_consumed := Some k, hi_last_revision := k\<rparr>)"

lemma decided_abort_Inr:
  "decided_abort E a r = Inr u \<longleftrightarrow>
     a_decided a \<and> r_completion r = None \<and> r_acknowledgements r \<noteq> (True, True)
   \<and> a_aborted_revision a = q_revision (r_request r) \<and> a_aborted_request_id a = q_id (r_request r)
   \<and> request_digest E (r_request r) = Inr (a_aborted_request a)"
  by (auto simp: decided_abort_def res_simps)

lemma decided_abort_read:
  assumes lawful: "journal_lawful E" and read: "read_with_revision E trust scope select db = Inr (h, sel)"
    and x: "abort_addable E trust scope (hi_aborts h) x"
    and head: "hi_head h = Some r" "decided_abort E (ar_abort x) r = Inr ()"
    and save: "save_abort E x db = Inr db'"
  shows "read_with_revision E trust scope select (db'\<lparr>jd_head := Some (a_aborted_revision (ar_abort x))\<rparr>)
    = Inr (aborted_history x h, sel)"
proof -
  let ?k = "q_revision (r_request r)"
  have d: "r_completion r = None" "a_aborted_revision (ar_abort x) = ?k" "a_decided (ar_abort x)"
    using head(2) by (simp_all add: decided_abort_Inr)
  obtain rows row st consumed where
    rows: "jd_history db = rows @ [(?k, row)]" and aborts: "read_aborts E trust scope db = Inr (hi_aborts h)"
    and s: "scan_rows E trust scope select (scan_start (hi_aborts h)) rows = Inr st"
      "flush_aborts scope (\<lambda>a. a < ?k) (sn_effective st) (sn_consumed st) (sn_pending st) = Inr (consumed, [])"
    and old: "read_history_row E trust (?k, row) = Inr r" "q_id (r_request r) \<notin> set (sn_ids st)"
      "chain scope (sn_effective st) consumed r = Inr ()"
    and h: "h = history_of scope (hi_aborts h) (scan_live r (scan_note select r (st\<lparr>sn_pending := []\<rparr>))) (Some ?k)"
      "sel = (if select = Some ?k then Some r else sn_selected st)" "jd_head db = Some ?k"
    using open_head [OF read head(1) d(1)] by blast
  have above: "\<forall>y \<in> fst ` set rows \<union> fst ` set (hi_aborts h). y < ?k"
    using last_row_above [OF read_inv(9) [OF read] s old(3)] .
  have ok: "read_ok E trust scope db" using read by (simp add: read_with_revision_Inr)
  have new: "read_aborts E trust scope db' = Inr (hi_aborts h @ [(?k, x)])" "read_ok E trust scope db'"
    "jd_history db' = jd_history db"
    using save_abort_read [OF lawful aborts ok x _ save] above d(2) by auto
  have "scan_rows E trust scope select (scan_start (hi_aborts h @ [(?k, x)])) rows = Inr (postpone [(?k, x)] st)"
    using scan_rows_postpone [OF _ s(1), of "[(?k, x)]"] above by auto
  then have "scan_rows E trust scope select (scan_start (hi_aborts h @ [(?k, x)])) (jd_history db') =
      Inr (scan_note select r (st\<lparr>sn_pending := []\<rparr>))"
    using s(2) old head(2)
    by (simp add: new(3) rows scan_rows_snoc scan_row_def flush_append scan_settle_def postpone_def scan_note_def)
  then have "read_with_revision E trust scope select (db'\<lparr>jd_head := Some ?k\<rparr>) =
      Inr (history_of scope (hi_aborts h @ [(?k, x)]) (scan_note select r (st\<lparr>sn_pending := []\<rparr>)) (Some ?k), sel)"
    using new(1,2) h(2) by (auto simp: read_with_revision_Inr scan_note_def last_of_def)
  moreover have "sn_effective st = sn_completed st"
  proof -
    have "scan_inv scope select (hi_aborts h) rows st"
      using scan_rows_inv [OF read_inv(9) [OF read] s(1)] .
    then show ?thesis
      using chain_completed [OF old(3)] by (cases "sn_effective st") (auto simp: scan_inv_def)
  qed
  then have "history_of scope (hi_aborts h @ [(?k, x)]) (scan_note select r (st\<lparr>sn_pending := []\<rparr>)) (Some ?k)
      = aborted_history x (history_of scope (hi_aborts h) (scan_live r (scan_note select r (st\<lparr>sn_pending := []\<rparr>))) (Some ?k))"
    using d by (simp add: history_of_def aborted_history_def scan_live_def scan_note_def last_of_def Let_def)
  ultimately show ?thesis using h(1) d(2) by simp
qed

lemma undecided_abort_read:
  assumes lawful: "journal_lawful E" and read: "read_with_revision E trust scope select db = Inr (h, sel)"
    and x: "abort_addable E trust scope (hi_aborts h) x"
    and target: "undecided_abort scope x (hi_consumed h) (hi_head h) = Inr ()"
    and save: "save_abort E x db = Inr db'"
  shows "read_with_revision E trust scope select (db'\<lparr>jd_head := Some (a_aborted_revision (ar_abort x))\<rparr>)
    = Inr (aborted_history x h, sel)"
proof -
  let ?k = "a_aborted_revision (ar_abort x)"
  obtain aborts st consumed where ok: "read_ok E trust scope db" and r: "read_aborts E trust scope db = Inr aborts"
    "scan_rows E trust scope select (scan_start aborts) (jd_history db) = Inr st"
    "flush_aborts scope (\<lambda>_. True) (sn_effective st) (sn_consumed st) (sn_pending st) = Inr (consumed, [])"
    and h: "h = history_of scope aborts st consumed" "sel = sn_selected st"
    using read by (auto simp: read_with_revision_Inr)
  have t: "undecided_abort scope x consumed (sn_effective st) = Inr ()"
    using target by (simp add: h history_of_def)
  have above: "\<forall>y \<in> fst ` set (jd_history db) \<union> fst ` set aborts. y < ?k"
    using gapless_next(2) [OF read_inv(1) [OF read]] t
    by (simp add: h history_of_def undecided_abort_Inr)
  have new: "read_aborts E trust scope db' = Inr (aborts @ [(?k, x)])" "read_ok E trust scope db'"
    "jd_history db' = jd_history db"
    using save_abort_read [OF lawful r(1) ok _ _ save] above x by (auto simp: h history_of_def)
  have "scan_rows E trust scope select (scan_start (aborts @ [(?k, x)])) (jd_history db') =
      Inr (postpone [(?k, x)] st)"
    using scan_rows_postpone [OF _ r(2), of "[(?k, x)]"] above new(3) by auto
  moreover have "flush_aborts scope (\<lambda>_. True) (sn_effective st) (sn_consumed st) (sn_pending st @ [(?k, x)])
      = Inr (Some ?k, [])"
    using r(3) t by (simp add: flush_append)
  ultimately show ?thesis
    using new(1,2) t h(2)
    by (auto simp: read_with_revision_Inr last_of_def h(1) history_of_def aborted_history_def
        undecided_abort_Inr Let_def)
qed

text \<open>Every record a read hands out was verified when its row was read.\<close>

definition record_valid :: "('j, 'x) journal_env_scheme \<Rightarrow> Trust \<Rightarrow> JournalScope \<Rightarrow> TransitionRecord \<Rightarrow> bool" where
  "record_valid E trust scope r \<longleftrightarrow>
     is_none_or (r_completion r) (\<lambda>c. c \<noteq> 0 \<and> r_acknowledgements r = (True, True))
   \<and> scope_binds_request scope (r_request r)
   \<and> (\<exists>v. verify_historical E (r_token r) trust (r_request r) = Inr v)"

lemma scan_rows_valid:
  "scan_rows E trust scope select (scan_start aborts) rows = Inr st \<Longrightarrow>
     r \<in> set_option (sn_effective st) \<union> set_option (sn_completed st) \<union> set_option (sn_selected st) \<Longrightarrow>
     record_valid E trust scope r"
proof (induction rows arbitrary: st rule: rev_induct)
  case Nil
  then show ?case by (auto simp: scan_start_def)
next
  case (snoc entry rows)
  then obtain st0 c p rc where s: "scan_rows E trust scope select (scan_start aborts) rows = Inr st0"
    "read_history_row E trust entry = Inr rc" "chain scope (sn_effective st0) c rc = Inr ()"
    "scan_settle E select rc (st0\<lparr>sn_pending := p\<rparr>) = Inr st"
    by (auto simp: scan_rows_snoc and_then_Inr scan_row_Inr)
  have "record_valid E trust scope rc"
    using s(2,3) by (cases entry) (auto simp: record_valid_def read_history_row_Inr chain_def Let_def ensure_Inr)
  with s(4) snoc.prems(2) snoc.IH [OF s(1)] show ?case
    by (auto simp: scan_settle_Inr scan_note_def scan_live_def split: if_splits)
qed

lemma read_valid:
  assumes "read_with_revision E trust scope select db = Inr (h, sel)"
    and "r \<in> set_option (hi_head h) \<union> set_option (hi_completed h) \<union> set_option sel"
  shows "record_valid E trust scope r"
  using assms by (auto simp: read_with_revision_Inr history_of_def intro: scan_rows_valid)

lemma journal_read_valid:
  "journal_read E trust scope db = Inr h \<Longrightarrow> hi_head h = Some r \<Longrightarrow> record_valid E trust scope r"
  by (auto simp: read_any_selection [of _ _ _ _ _ None] intro!: read_valid)

section \<open>What each operation does\<close>

lemma journal_decide_effect:
  assumes "journal_decide E policy trust scope request token now db = (v, db')"
  shows "db' = db
    \<or> (\<exists>h verified. journal_read E trust scope db = Inr h \<and> transition_validate request = Inr ()
       \<and> loss_record_exists E trust db = Inr False
       \<and> (hi_head h \<noteq> None \<or> \<not> successor_parent_exists db)
       \<and> \<not> is_some_and (hi_head h) (\<lambda>r. r_request r = request)
       \<and> tp_continuity policy 0 scope request = Inr ()
       \<and> decide_checks E policy trust scope h request token now = Inr verified
       \<and> save_transition E (fresh_record request token) db = Inr db'
       \<and> v = Inr \<lparr>ct_request = request, ct_token = token, ct_token_digest = vi_token_digest verified,
                 ct_certificate_id = vi_certificate_id verified,
                 ct_acknowledgements = (False, False), ct_completion = None\<rparr>)"
  using assms
  by (auto simp: journal_decide_def transact_def and_then_def ensure_def ok_or_def
      split: sum.splits option.splits if_splits)

lemma journal_acknowledge_effect:
  assumes "journal_acknowledge E policy trust scope decision member db = (v, db')"
  shows "db' = db
    \<or> (\<exists>h r i. journal_read E trust scope db = Inr h \<and> hi_head h = Some r \<and> r_request r = ct_request decision
       \<and> loss_record_exists E trust db = Inr False
       \<and> r_completion r = None
       \<and> at (q_participants (r_request r)) i = member \<and> \<not> at (r_acknowledgements r) i
       \<and> tp_applied policy scope decision member = Inr ()
       \<and> replace_transition E (r\<lparr>r_acknowledgements := put (r_acknowledgements r) i True\<rparr>) db = Inr db'
       \<and> v = Inr ())"
proof (rule disjCI)
  assume "\<not> (\<exists>h r i. journal_read E trust scope db = Inr h \<and> hi_head h = Some r
       \<and> r_request r = ct_request decision \<and> loss_record_exists E trust db = Inr False
       \<and> r_completion r = None
       \<and> at (q_participants (r_request r)) i = member \<and> \<not> at (r_acknowledgements r) i
       \<and> tp_applied policy scope decision member = Inr ()
       \<and> replace_transition E (r\<lparr>r_acknowledgements := put (r_acknowledgements r) i True\<rparr>) db = Inr db'
       \<and> v = Inr ())"
  moreover have "r_completion r = None"
    if "journal_read E trust scope db = Inr h" "hi_head h = Some r" "\<not> at (r_acknowledgements r) i" for h r i
    using journal_read_valid [OF that(1,2)] that(3)
    by (cases "r_completion r"; cases i) (auto simp: record_valid_def)
  ultimately show "db' = db"
    using assms
    by (auto simp: journal_acknowledge_def transact_def and_then_def ensure_def ok_or_def
        dest!: position_Some split: sum.splits option.splits if_splits)
qed

lemma journal_complete_effect:
  assumes "journal_complete E policy trust scope decision completion db = (v, db')"
  shows "db' = db
    \<or> (\<exists>h r. journal_read E trust scope db = Inr h \<and> hi_head h = Some r \<and> r_request r = ct_request decision
       \<and> loss_record_exists E trust db = Inr False
       \<and> r_acknowledgements r = (True, True) \<and> r_completion r = None \<and> completion \<noteq> 0
       \<and> replace_transition E (r\<lparr>r_completion := Some completion\<rparr>) db = Inr db' \<and> v = Inr ())"
  using assms
  by (auto simp: journal_complete_def transact_def and_then_def ensure_def ok_or_def
      split: sum.splits option.splits if_splits)

lemma journal_abort_effect:
  assumes "journal_abort E policy trust scope abort token now db = (v, db')"
  shows "db' = db
    \<or> (\<exists>h certificate db''. journal_read E trust scope db = Inr h \<and> maintenance_abort_validate abort = Inr ()
       \<and> \<not> successor_parent_exists db \<and> loss_record_exists E trust db = Inr False
       \<and> scope_binds_abort scope abort \<and> abort_at h (a_aborted_revision abort) = None
       \<and> abort_target E h abort = Inr () \<and> len (hi_aborts h) < MAX_ABORT_ROWS
       \<and> tp_abort_applicable policy scope abort = Inr ()
       \<and> verify_abort_issuance E token trust abort now = Inr certificate
       \<and> (let x = \<lparr>ar_format = 2, ar_abort = abort, ar_token = token, ar_certificate_id = certificate\<rparr> in
          save_abort E x db = Inr db'' \<and> v = committed_abort E trust x
        \<and> db' = db''\<lparr>jd_head := Some (max (hi_last_revision h) (a_aborted_revision abort))\<rparr>))"
  using assms
  by (auto simp: journal_abort_def transact_def and_then_def ensure_def ok_or_def Let_def
      split: sum.splits option.splits if_splits)

end
