(* ===== verification/Transition_Loss.thy ===== *)
theory Transition_Loss
  imports Transition_Journal
begin

text \<open>
  Participant losses and their successors, \<^verbatim>\<open>replication/recovery/src/transition/loss.rs\<close>: deciding
  a loss from a completed transition, from a decided one or from a completed successor; superseding
  a loss; founding the successor journal; and deciding, acknowledging, completing and aborting the
  successor. The tables are those of \<open>Transition_Store\<close>; the history is read by
  \<open>Transition_Journal\<close>. The lemmas say what each operation that writes leaves to be read.
\<close>

section \<open>Data\<close>

record CommittedLoss =
  cl_request :: LossRequest
  cl_token :: string
  cl_certificate_id :: Id
  cl_token_digest :: Id

record CommittedLossSuccessorTransition =
  cs_request :: LossSuccessorRequest
  cs_token :: string
  cs_token_digest :: Id
  cs_certificate_id :: Id
  cs_source_scope :: JournalScope
  cs_loss_request :: LossRequest
  cs_loss_token_digest :: Id
  cs_loss_certificate_id :: Id
  cs_acknowledgements :: "bool \<times> bool"

record CompletedLossSuccessorTransition =
  cp_request :: LossSuccessorRequest
  cp_token_digest :: Id
  cp_certificate_id :: Id
  cp_completion :: Id

record CommittedLossSuccessorAbort =
  cx_abort :: LossSuccessorAbort
  cx_token :: string
  cx_token_digest :: Id
  cx_certificate_id :: Id

text \<open>
  The integrator's hooks; those an operation calls more than once receive the number of calls that
  came before. All but the first two have an implementation by default, which denies.
\<close>

record LossPolicy =
  lp_continuity_and_fencing :: "nat \<Rightarrow> JournalScope \<Rightarrow> LossRequest \<Rightarrow> unit res"
  lp_survivor_prepared :: "JournalScope \<Rightarrow> LossRequest \<Rightarrow> unit res"
  lp_maintenance_rollback_authorized :: "JournalScope \<Rightarrow> LossRequest \<Rightarrow> Id \<Rightarrow> unit res"
  lp_maintenance_finish_forward_authorized :: "JournalScope \<Rightarrow> LossRequest \<Rightarrow> Id \<Rightarrow> unit res"
  lp_loss_successor_applied ::
    "JournalScope \<Rightarrow> LossRequest \<Rightarrow> LossSuccessorRequest \<Rightarrow> Participant \<Rightarrow> unit res"
  lp_loss_successor_continuity :: "nat \<Rightarrow> JournalScope \<Rightarrow> LossSuccessorRequest \<Rightarrow> unit res"
  lp_successor_abort_authorized ::
    "JournalScope \<Rightarrow> LossRequest \<Rightarrow> LossSuccessorRequest \<Rightarrow> LossSuccessorAbort \<Rightarrow> unit res"
  lp_superseded_successor_aborted :: "JournalScope \<Rightarrow> LossRequest \<Rightarrow> Supersedes \<Rightarrow> unit res"

definition default_hooks ::
  "(nat \<Rightarrow> JournalScope \<Rightarrow> LossRequest \<Rightarrow> unit res) \<Rightarrow> (JournalScope \<Rightarrow> LossRequest \<Rightarrow> unit res) \<Rightarrow> LossPolicy" where
  "default_hooks continuity prepared =
     \<lparr>lp_continuity_and_fencing = continuity,
      lp_survivor_prepared = prepared,
      lp_maintenance_rollback_authorized =
        (\<lambda>_ _ _. Inl (Refused ''maintenance rollback evidence missing'')),
      lp_maintenance_finish_forward_authorized =
        (\<lambda>_ _ _. Inl (Refused ''maintenance finish-forward evidence missing'')),
      lp_loss_successor_applied =
        (\<lambda>_ _ _ _. Inl (Refused ''loss successor installation evidence missing'')),
      lp_loss_successor_continuity = (\<lambda>_ _ _. Inl (Refused ''loss successor continuity missing'')),
      lp_successor_abort_authorized =
        (\<lambda>_ _ _ _. Inl (Refused ''loss successor abort evidence missing'')),
      lp_superseded_successor_aborted =
        (\<lambda>_ _ _. Inl (Refused ''superseded loss abort evidence missing''))\<rparr>"

section \<open>Deciding a loss\<close>

definition committed_loss ::
  "('j, 'x) journal_env_scheme \<Rightarrow> Trust \<Rightarrow> LossRecord \<Rightarrow> CommittedLoss res" where
  "committed_loss E trust r =
     and_then (verify_loss E (lr_token r) trust (lr_request r) None) (\<lambda>certificate.
       Inr \<lparr>cl_request = lr_request r, cl_token = lr_token r, cl_certificate_id = certificate,
            cl_token_digest = sha256 E (as_bytes (lr_token r))\<rparr>)"

definition is_lost :: "LossRequest \<Rightarrow> Participant \<Rightarrow> bool" where
  "is_lost l p \<longleftrightarrow> pt_member p = l_lost_member l \<and> pt_generation p = l_lost_generation l"

definition loss_source_bound ::
  "JournalScope \<Rightarrow> LossRequest \<Rightarrow> Id \<Rightarrow> Id \<Rightarrow> Checkpoint \<Rightarrow> bool" where
  "loss_source_bound scope l certificate token_digest c \<longleftrightarrow>
     l_install l = js_install scope
   \<and> l_region l = js_region scope
   \<and> l_scope l = js_scope scope
   \<and> l_schema l = js_schema scope
   \<and> l_membership l = js_membership scope
   \<and> l_authority_id l = js_authority_id scope
   \<and> l_source_certificate l = certificate
   \<and> l_source_token_digest l = token_digest
   \<and> l_source_cut l = c"

definition loss_pair_bound :: "LossRequest \<Rightarrow> Participant \<times> Participant \<Rightarrow> Participant \<Rightarrow> bool" where
  "loss_pair_bound l pair survivor \<longleftrightarrow>
     pt_member (l_survivor l) = pt_member survivor
   \<and> pt_generation (l_survivor l) = pt_generation survivor
   \<and> pt_old_base (l_survivor l) = pt_old_base survivor
   \<and> l_replacement_member l \<noteq> pt_member (fst pair)
   \<and> l_replacement_member l \<noteq> pt_member (snd pair)"

definition loss_from_completed ::
  "('j, 'x) journal_env_scheme \<Rightarrow> Trust \<Rightarrow> JournalScope \<Rightarrow> History \<Rightarrow> LossRequest \<Rightarrow> u64 res" where
  "loss_from_completed E trust scope history l =
     and_then (ok_or (hi_head history) ''completed transition required'') (\<lambda>head.
     let abandoning = (r_completion head = None) in
     and_then (if abandoning
        then and_then (request_digest E (r_request head)) (\<lambda>d.
               ensure (l_abandoned_request l = Some d)
                 ''open decided transition must be abandoned or sourced'' (Inr ()))
        else Inr ()) (\<lambda>_.
     and_then (if abandoning then ok_or (hi_completed history) ''completed transition required''
        else Inr head) (\<lambda>r.
     and_then (committed E trust r) (\<lambda>source.
     ensure (r_completion r \<noteq> None \<and> r_acknowledgements r = (True, True)) ''completed transition required'' (
     and_then (ok_or (position (is_lost l) (q_participants (r_request r))) ''lost participant mismatch'') (\<lambda>lost.
     ensure (\<not> abandoning \<or> \<not> at (r_acknowledgements head) (other lost))
       ''abandoned transition already applied by the survivor'' (
     ensure (loss_source_bound scope l (ct_certificate_id source) (ct_token_digest source)
         (pt_target (fst (q_participants (r_request r))))) ''loss source mismatch'' (
     ensure (loss_pair_bound l (q_participants (r_request r)) (at (q_participants (r_request r)) (other lost)))
       ''loss participant/revision mismatch'' (
       Inr (hi_last_revision history))))))))))"

definition loss_from_decided ::
  "('j, 'x) journal_env_scheme \<Rightarrow> Trust \<Rightarrow> JournalScope \<Rightarrow> History \<Rightarrow> LossRequest \<Rightarrow> u64 res" where
  "loss_from_decided E trust scope history l =
     and_then (ok_or (hi_head history) ''decided transition required'') (\<lambda>head.
     ensure (r_completion head = None) ''decided transition required'' (
     and_then (request_digest E (r_request head)) (\<lambda>d.
     ensure (l_abandoned_request l = Some d) ''abandoned request must name the decided transition'' (
     and_then (committed E trust head) (\<lambda>source.
     and_then (ok_or (position (is_lost l) (q_participants (r_request head))) ''lost participant mismatch'') (\<lambda>lost.
     ensure (\<not> at (r_acknowledgements head) lost)
       ''lost participant already acknowledged; complete the transition instead'' (
     ensure (at (r_acknowledgements head) (other lost))
       ''finish forward requires the survivor acknowledgement'' (
     ensure (loss_source_bound scope l (ct_certificate_id source) (ct_token_digest source)
         (pt_target (fst (q_participants (r_request head))))) ''loss source mismatch'' (
     ensure (loss_pair_bound l (q_participants (r_request head))
         (at (q_participants (r_request head)) (other lost)))
       ''loss participant/revision mismatch'' (
       Inr (hi_last_revision history)))))))))))"

definition loss_from_successor ::
  "('j, 'x) journal_env_scheme \<Rightarrow> Trust \<Rightarrow> JournalScope \<Rightarrow> History \<Rightarrow> LossRequest \<Rightarrow> 'j journal_db \<Rightarrow> u64 res" where
  "loss_from_successor E trust scope history l db =
     ensure (hi_head history = None) ''ordinary successor history forbidden'' (
     and_then (read_parent E trust scope db) (\<lambda>parent.
     and_then (ok_or parent ''loss parent missing'') (\<lambda>parent.
     and_then (read_successor E trust db) (\<lambda>successor.
     and_then (ok_or successor ''replacement transition missing'') (\<lambda>successor.
     and_then (ensure_successor_not_aborted E trust db) (\<lambda>_.
     ensure (s_format (sr_request successor) = 2) ''format-1 loss successor cannot source a loss'' (
     ensure (sr_acknowledgements successor = (True, True) \<and> sr_completion successor \<noteq> None)
       ''completed replacement transition required'' (
     and_then (ok_or (position (is_lost l) (s_participants (sr_request successor)))
         ''lost participant mismatch'') (\<lambda>lost.
     ensure (loss_source_bound scope l (sr_certificate_id successor)
         (sha256 E (as_bytes (sr_token successor))) (s_survivor_cut (sr_request successor)))
       ''loss source mismatch'' (
     ensure (loss_pair_bound l (s_participants (sr_request successor))
         (at (s_participants (sr_request successor)) (other lost)))
       ''loss participant/revision mismatch'' (
     ensure (\<not> retired_contains (pa_retired parent) (l_replacement_member l) (l_replacement_generation l)
            (l_replacement_membership l)
         \<and> l_replacement_member l \<noteq> l_lost_member (lr_request (pa_loss parent))
         \<and> l_replacement_generation l \<noteq> l_lost_generation (lr_request (pa_loss parent))
         \<and> l_replacement_membership l \<noteq> l_membership (lr_request (pa_loss parent)))
       ''loss replacement reuses a retired identity'' (
       Inr (max (hi_last_revision history) (s_revision (sr_request successor)))))))))))))))"

definition supersedes_previous ::
  "('j, 'x) journal_env_scheme \<Rightarrow> Supersedes \<Rightarrow> LossRecord \<Rightarrow> LossRequest \<Rightarrow> LossRecord list \<Rightarrow> Retired
     \<Rightarrow> unit res" where
  "supersedes_previous E s prev l history retired =
     (let p = lr_request prev in
      ensure (sp_loss_certificate s = lr_certificate_id prev
          \<and> sp_loss_token_digest s = sha256 E (as_bytes (lr_token prev)))
        ''superseded loss binding mismatch'' (
      ensure (l_format l = l_format p
          \<and> kind l = kind p
          \<and> l_authority_id l = l_authority_id p
          \<and> l_install l = l_install p
          \<and> l_region l = l_region p
          \<and> l_scope l = l_scope p
          \<and> l_schema l = l_schema p
          \<and> l_membership l = l_membership p
          \<and> l_source_certificate l = l_source_certificate p
          \<and> l_source_token_digest l = l_source_token_digest p
          \<and> l_source_cut l = l_source_cut p
          \<and> l_lost_member l = l_lost_member p
          \<and> l_lost_generation l = l_lost_generation p
          \<and> l_survivor l = l_survivor p
          \<and> l_survivor_cut l = l_survivor_cut p
          \<and> l_survivor_publication l = l_survivor_publication p
          \<and> l_abandoned_request l = l_abandoned_request p)
        ''superseding loss changes more than the replacement'' (
      ensure (\<not> retired_contains retired (l_replacement_member l) (l_replacement_generation l)
             (l_replacement_membership l)
          \<and> list_all (\<lambda>r. l_replacement_member l \<noteq> l_replacement_member (lr_request r)
               \<and> l_replacement_generation l \<noteq> l_replacement_generation (lr_request r)
               \<and> l_replacement_membership l \<noteq> l_replacement_membership (lr_request r)) history)
        ''superseding loss reuses a retired replacement'' (Inr ()))))"

definition no_identities :: Retired where
  "no_identities = \<lparr>rt_members = [], rt_generations = [], rt_memberships = []\<rparr>"

definition loss_base ::
  "('j, 'x) journal_env_scheme \<Rightarrow> Trust \<Rightarrow> JournalScope \<Rightarrow> History \<Rightarrow> LossRequest \<Rightarrow> 'j journal_db \<Rightarrow> u64 res" where
  "loss_base E trust scope history l db =
     (case kind l of
        LossSuccessor \<Rightarrow> loss_from_successor E trust scope history l db
      | Decided \<Rightarrow> loss_from_decided E trust scope history l
      | Completed \<Rightarrow> loss_from_completed E trust scope history l)"

definition maintenance_hooks :: "LossPolicy \<Rightarrow> JournalScope \<Rightarrow> LossRequest \<Rightarrow> unit res" where
  "maintenance_hooks policy scope l =
     (case (kind l, l_abandoned_request l) of
        (Completed, Some abandoned) \<Rightarrow> lp_maintenance_rollback_authorized policy scope l abandoned
      | (Decided, Some abandoned) \<Rightarrow> lp_maintenance_finish_forward_authorized policy scope l abandoned
      | _ \<Rightarrow> Inr ())"

text \<open>The revision after which the loss is decided: of the loss it supersedes, or of its source.\<close>

definition loss_expected ::
  "('j, 'x) journal_env_scheme \<Rightarrow> LossPolicy \<Rightarrow> Trust \<Rightarrow> JournalScope \<Rightarrow> u64 \<Rightarrow> LossRequest \<Rightarrow> LossRecord list
     \<Rightarrow> 'j journal_db \<Rightarrow> u64 res" where
  "loss_expected E policy trust scope base l history db =
     (case (l_supersedes l, last_loss history) of
        (None, Some _) \<Rightarrow> Inl (Refused ''immutable loss decision conflict'')
      | (Some _, None) \<Rightarrow> Inl (Refused ''superseded loss decision missing'')
      | (Some s, Some prev) \<Rightarrow>
          and_then (read_parent E trust scope db) (\<lambda>parent.
          let retired = (case parent of None \<Rightarrow> no_identities | Some p \<Rightarrow> pa_retired p) in
          and_then (supersedes_previous E s prev l history retired) (\<lambda>_.
          and_then (lp_superseded_successor_aborted policy scope (lr_request prev) s) (\<lambda>_.
            Inr (l_revision (lr_request prev)))))
      | (None, None) \<Rightarrow> Inr base)"

definition decide_loss ::
  "('j, 'x) journal_env_scheme \<Rightarrow> LossPolicy \<Rightarrow> Trust \<Rightarrow> JournalScope \<Rightarrow> LossRequest \<Rightarrow> string \<Rightarrow> u64
     \<Rightarrow> 'j journal_db \<Rightarrow> CommittedLoss res \<times> 'j journal_db" where
  "decide_loss E policy trust scope l token now db = transact db (
     and_then (loss_validate l) (\<lambda>_.
     ensure (len token \<le> MAX_TOKEN) ''token limit'' (
     and_then (journal_read E trust scope db) (\<lambda>history.
     and_then (loss_base E trust scope history l db) (\<lambda>base.
     and_then (maintenance_hooks policy scope l) (\<lambda>_.
     and_then (read_loss_history E trust db) (\<lambda>losses.
       if is_some_and (last_loss losses) (\<lambda>old. lr_request old = l)
       then and_then (ok_or (last_loss losses) ''loss decision missing'') (\<lambda>old.
            ensure (lr_token old = token) ''immutable loss decision conflict'' (
            and_then (lp_continuity_and_fencing policy 0 scope l) (\<lambda>_.
              Inr (committed_loss E trust old, db))))
       else
         and_then (loss_expected E policy trust scope base l losses db) (\<lambda>expected.
         and_then (ok_or (checked_add expected 1) ''loss revision overflow'') (\<lambda>next.
         ensure (l_revision l = next) ''loss participant/revision mismatch'' (
         and_then (verify_loss E token trust l (Some now)) (\<lambda>certificate.
         and_then (lp_continuity_and_fencing policy 0 scope l) (\<lambda>_.
         and_then (lp_survivor_prepared policy scope l) (\<lambda>_.
         and_then (lp_continuity_and_fencing policy 1 scope l) (\<lambda>_.
           let r = \<lparr>lr_request = l, lr_token = token, lr_certificate_id = certificate\<rparr> in
           and_then (if l_supersedes l \<noteq> None then save_chain_record E r db else save_loss E r db) (\<lambda>db'.
             Inr (committed_loss E trust r, db'))))))))))))))))"

definition fetch_loss ::
  "('j, 'x) journal_env_scheme \<Rightarrow> LossPolicy \<Rightarrow> Trust \<Rightarrow> JournalScope \<Rightarrow> 'j journal_db \<Rightarrow> CommittedLoss res" where
  "fetch_loss E policy trust scope db =
     and_then (ensure_journal_format E scope db) (\<lambda>_.
     and_then (read_loss E trust db) (\<lambda>r.
     and_then (ok_or r ''loss decision missing'') (\<lambda>r.
     and_then (lp_continuity_and_fencing policy 0 scope (lr_request r)) (\<lambda>_.
       committed_loss E trust r))))"

fun retire_losses :: "Retired \<Rightarrow> LossRecord list \<Rightarrow> Retired" where
  "retire_losses retired [] = retired"
| "retire_losses retired [_] = retired"
| "retire_losses retired (r # next # rest) =
     retire_losses (retired_push (l_replacement_member (lr_request r)) (l_replacement_generation (lr_request r))
       (l_replacement_membership (lr_request r)) retired) (next # rest)"

definition retired_identities ::
  "('j, 'x) journal_env_scheme \<Rightarrow> Trust \<Rightarrow> JournalScope \<Rightarrow> 'j journal_db \<Rightarrow> Retired res" where
  "retired_identities E trust scope db =
     and_then (read_parent E trust scope db) (\<lambda>parent.
     and_then (read_loss_history E trust db) (\<lambda>history.
     let retired = (case parent of None \<Rightarrow> no_identities | Some p \<Rightarrow> pa_retired p) in
     Inr (case history of
        [] \<Rightarrow> retired
      | first # _ \<Rightarrow>
          retire_losses (retired_push (l_lost_member (lr_request first)) (l_lost_generation (lr_request first))
            (l_membership (lr_request first)) retired) history)))"

section \<open>Founding the successor journal\<close>

text \<open>
  The file of the successor: absent, with what creating the encrypted container answers; or present,
  with what opening it answers. \<open>schema\<close> are the two schema queries of a fresh container.
\<close>

type_synonym schema = "(string \<times> string) list \<times> (u64 \<times> u64)"

datatype 'j successor_file =
    Absent "schema res"
  | Present bool "('j journal_db \<times> schema) res"

definition successor_scope_bound :: "JournalScope \<Rightarrow> LossRequest \<Rightarrow> unit res" where
  "successor_scope_bound scope l =
     ensure (js_install scope = l_install l
         \<and> js_region scope = l_region l
         \<and> js_scope scope = l_scope l
         \<and> js_schema scope = l_schema l
         \<and> js_membership scope = l_replacement_membership l
         \<and> js_source_anchor scope = l_source_cut l
         \<and> js_authority_id scope = l_authority_id l) ''replacement journal scope mismatch'' (
     and_then (ok_or (checked_add (l_revision l) 1) ''replacement revision overflow'') (\<lambda>next.
     ensure (js_initial_revision scope = next) ''replacement journal scope mismatch'' (Inr ())))"

definition resume_checks ::
  "('j, 'x) journal_env_scheme \<Rightarrow> Trust \<Rightarrow> JournalScope \<Rightarrow> SuccessorParent \<Rightarrow> Id \<Rightarrow> 'j journal_db \<Rightarrow> unit res" where
  "resume_checks E trust scope expected token_digest db =
     and_then (journal_read E trust scope db) (\<lambda>history.
     ensure (hi_head history = None) ''replacement journal is not empty'' (
     and_then (read_successor E trust db) (\<lambda>successor.
     ensure (successor = None) ''replacement journal is not empty'' (
     and_then (read_parent E trust scope db) (\<lambda>parent.
     and_then (ok_or parent ''loss parent missing'') (\<lambda>parent.
     ensure (pa_source_scope parent = pa_source_scope expected \<and> parent = expected
         \<and> sha256 E (as_bytes (lr_token (pa_loss parent))) = token_digest)
       ''replacement journal parent conflict'' (Inr ())))))))"

text \<open>
  What happens to the file: an existing one is resumed, if need be after initializing it; an absent
  one is created and initialized. \<open>unchanged\<close> reads the loss of the source again. The result is the
  successor's database; the second component is the database that the initialization committed, if
  it ran.
\<close>

definition found_file ::
  "('j, 'x) journal_env_scheme \<Rightarrow> Trust \<Rightarrow> string \<Rightarrow> JournalScope \<Rightarrow> SuccessorParent \<Rightarrow> Id \<Rightarrow> (string \<Rightarrow> unit res)
     \<Rightarrow> 'j successor_file \<Rightarrow> ('j journal_db res \<times> 'j journal_db option) res" where
  "found_file E trust passphrase scope expected token_digest unchanged file =
     (let resume = (\<lambda>db.
        and_then (resume_checks E trust scope expected token_digest db) (\<lambda>_.
        and_then (unchanged ''loss parent changed during resume'') (\<lambda>_. Inr db)))
      in case file of
           Present is_file opened \<Rightarrow>
             (case journal_open E is_file (and_then opened (\<lambda>(db, _). Inr db)) passphrase scope trust of
                Inr db \<Rightarrow> Inr (resume db, None)
              | Inl _ \<Rightarrow>
                  and_then opened (\<lambda>(_, objects, baseline).
                  and_then (initialize_pristine_successor E scope expected objects baseline) (\<lambda>db.
                    Inr (and_then (journal_open E is_file (Inr db) passphrase scope trust) resume, Some db))))
         | Absent created \<Rightarrow>
             and_then created (\<lambda>(objects, baseline).
             and_then (initialize_pristine_successor E scope expected objects baseline) (\<lambda>db.
               Inr (and_then (unchanged ''loss parent changed during initialization'') (\<lambda>_. Inr db), Some db))))"

definition expected_parent :: "JournalScope \<Rightarrow> CommittedLoss \<Rightarrow> Retired \<Rightarrow> SuccessorParent" where
  "expected_parent source_scope loss retired =
     \<lparr>pa_source_scope = source_scope,
      pa_loss = \<lparr>lr_request = cl_request loss, lr_token = cl_token loss, lr_certificate_id = cl_certificate_id loss\<rparr>,
      pa_retired = retired\<rparr>"

text \<open>
  The source journal is read three times, and may have changed in between: \<open>source1\<close> for the loss,
  \<open>source2\<close> for the retired identities, \<open>source3\<close> for the loss again.
\<close>

definition create_loss_successor ::
  "('j, 'x) journal_env_scheme \<Rightarrow> LossPolicy \<Rightarrow> Trust \<Rightarrow> string \<Rightarrow> JournalScope \<Rightarrow> JournalScope
     \<Rightarrow> 'j journal_db \<Rightarrow> 'j journal_db \<Rightarrow> 'j journal_db \<Rightarrow> 'j successor_file
     \<Rightarrow> 'j journal_db res \<times> 'j journal_db option" where
  "create_loss_successor E policy trust passphrase scope source_scope source1 source2 source3 file =
     transact None (
     and_then (journal_scope_validate scope) (\<lambda>_.
     ensure (passphrase \<noteq> []) ''invalid transition journal initialization'' (
     and_then (fetch_loss E policy trust source_scope source1) (\<lambda>loss.
     and_then (successor_scope_bound scope (cl_request loss)) (\<lambda>_.
     ensure (js_profile scope = tr_profile trust \<and> js_profile source_scope = tr_profile trust)
       ''replacement trust profile mismatch'' (
     and_then (retired_identities E trust source_scope source2) (\<lambda>retired.
       found_file E trust passphrase scope (expected_parent source_scope loss retired) (cl_token_digest loss)
         (\<lambda>message. and_then (fetch_loss E policy trust source_scope source3) (\<lambda>again.
            ensure (cl_token_digest again = cl_token_digest loss) message (Inr ())))
         file)))))))"

section \<open>The successor's decision\<close>

definition validate_successor_request :: "JournalScope \<Rightarrow> LossRequest \<Rightarrow> LossSuccessorRequest \<Rightarrow> unit res" where
  "validate_successor_request scope loss s =
     and_then (roles s) (\<lambda>(i, j).
     ensure (s_revision s = js_initial_revision scope
         \<and> s_install s = l_install loss
         \<and> s_region s = l_region loss
         \<and> s_scope s = l_scope loss
         \<and> s_schema s = l_schema loss
         \<and> s_membership s = l_replacement_membership loss
         \<and> s_authority_id s = l_authority_id loss
         \<and> s_source_certificate s = l_source_certificate loss
         \<and> s_source_token_digest s = l_source_token_digest loss
         \<and> s_source_cut s = l_source_cut loss
         \<and> s_parent_loss_certificate s \<noteq> 0
         \<and> s_survivor_cut s = l_survivor_cut loss
         \<and> s_survivor_publication s = l_survivor_publication loss
         \<and> pt_member (at (s_participants s) i) = pt_member (l_survivor loss)
         \<and> pt_generation (at (s_participants s) i) = pt_generation (l_survivor loss)
         \<and> pt_old_base (at (s_participants s) i) = pt_old_base (l_survivor loss)
         \<and> pt_member (at (s_participants s) j) = l_replacement_member loss
         \<and> pt_generation (at (s_participants s) j) = l_replacement_generation loss
         \<and> pt_target (fst (s_participants s)) = l_survivor_cut loss
         \<and> pt_publication (fst (s_participants s)) = l_survivor_publication loss
         \<and> pt_target (snd (s_participants s)) = l_survivor_cut loss
         \<and> pt_publication (snd (s_participants s)) = l_survivor_publication loss)
       ''replacement transition binding mismatch'' (Inr ()))"

definition committed_successor ::
  "('j, 'x) journal_env_scheme \<Rightarrow> LossSuccessorRecord \<Rightarrow> SuccessorParent
     \<Rightarrow> CommittedLossSuccessorTransition res" where
  "committed_successor E r parent =
     Inr \<lparr>cs_request = sr_request r, cs_token = sr_token r,
          cs_token_digest = sha256 E (as_bytes (sr_token r)), cs_certificate_id = sr_certificate_id r,
          cs_source_scope = pa_source_scope parent, cs_loss_request = lr_request (pa_loss parent),
          cs_loss_token_digest = sha256 E (as_bytes (lr_token (pa_loss parent))),
          cs_loss_certificate_id = lr_certificate_id (pa_loss parent),
          cs_acknowledgements = sr_acknowledgements r\<rparr>"

definition parent_bound ::
  "('j, 'x) journal_env_scheme \<Rightarrow> LossSuccessorRequest \<Rightarrow> SuccessorParent \<Rightarrow> bool" where
  "parent_bound E s parent \<longleftrightarrow>
     s_parent_loss_certificate s = lr_certificate_id (pa_loss parent)
   \<and> s_parent_loss_token_digest s = sha256 E (as_bytes (lr_token (pa_loss parent)))"

text \<open>The two live hooks that guard a successor decision.\<close>

definition successor_hooks ::
  "LossPolicy \<Rightarrow> nat \<Rightarrow> JournalScope \<Rightarrow> SuccessorParent \<Rightarrow> LossSuccessorRequest \<Rightarrow> unit res" where
  "successor_hooks policy n scope parent s =
     and_then (lp_continuity_and_fencing policy n (pa_source_scope parent) (lr_request (pa_loss parent))) (\<lambda>_.
       lp_loss_successor_continuity policy n scope s)"

definition decide_loss_successor ::
  "('j, 'x) journal_env_scheme \<Rightarrow> LossPolicy \<Rightarrow> Trust \<Rightarrow> JournalScope \<Rightarrow> LossSuccessorRequest \<Rightarrow> string \<Rightarrow> u64
     \<Rightarrow> 'j journal_db \<Rightarrow> CommittedLossSuccessorTransition res \<times> 'j journal_db" where
  "decide_loss_successor E policy trust scope s token now db = transact db (
     and_then (successor_validate s) (\<lambda>_.
     ensure (len token \<le> MAX_TOKEN) ''token limit'' (
     and_then (journal_read E trust scope db) (\<lambda>history.
     ensure (hi_head history = None) ''ordinary successor history forbidden'' (
     and_then (ensure_successor_live E trust db) (\<lambda>_.
     and_then (ensure_successor_not_aborted E trust db) (\<lambda>_.
     and_then (read_parent E trust scope db) (\<lambda>parent.
     and_then (ok_or parent ''loss parent missing'') (\<lambda>parent.
     and_then (successor_replacement s) (\<lambda>replacement.
     ensure (\<not> retired_contains (pa_retired parent) (pt_member replacement) (pt_generation replacement)
         (s_membership s)) ''replacement transition reuses a retired identity'' (
     and_then (validate_successor_request scope (lr_request (pa_loss parent)) s) (\<lambda>_.
     ensure (parent_bound E s parent) ''replacement parent binding mismatch'' (
     and_then (read_successor E trust db) (\<lambda>old.
       case old of
         Some old \<Rightarrow>
           ensure (sr_request old = s \<and> sr_token old = token)
             ''immutable replacement transition conflict'' (
           and_then (successor_hooks policy 0 scope parent s) (\<lambda>_.
             Inr (committed_successor E old parent, db)))
       | None \<Rightarrow>
           and_then (successor_hooks policy 0 scope parent s) (\<lambda>_.
           and_then (verify_loss_successor E token trust s (Some now)) (\<lambda>certificate.
           and_then (successor_hooks policy 1 scope parent s) (\<lambda>_.
             let r = \<lparr>sr_request = s, sr_token = token, sr_certificate_id = certificate,
                      sr_acknowledgements = (False, False), sr_completion = None\<rparr> in
             and_then (save_successor E r db) (\<lambda>db'.
               Inr (committed_successor E r parent, db')))))))))))))))))))"

definition fetch_loss_successor ::
  "('j, 'x) journal_env_scheme \<Rightarrow> LossPolicy \<Rightarrow> Trust \<Rightarrow> JournalScope \<Rightarrow> LossSuccessorRequest \<Rightarrow> 'j journal_db
     \<Rightarrow> CommittedLossSuccessorTransition res" where
  "fetch_loss_successor E policy trust scope s db =
     and_then (successor_validate s) (\<lambda>_.
     and_then (journal_read E trust scope db) (\<lambda>history.
     ensure (hi_head history = None) ''ordinary successor history forbidden'' (
     and_then (ensure_successor_live E trust db) (\<lambda>_.
     and_then (ensure_successor_not_aborted E trust db) (\<lambda>_.
     and_then (read_parent E trust scope db) (\<lambda>parent.
     and_then (ok_or parent ''loss parent missing'') (\<lambda>parent.
     and_then (validate_successor_request scope (lr_request (pa_loss parent)) s) (\<lambda>_.
     ensure (parent_bound E s parent) ''replacement parent binding mismatch'' (
     and_then (read_successor E trust db) (\<lambda>r.
     and_then (ok_or r ''replacement transition missing'') (\<lambda>r.
     ensure (sr_request r = s) ''replacement transition unavailable'' (
     and_then (successor_hooks policy 0 scope parent s) (\<lambda>_.
       committed_successor E r parent)))))))))))))"

text \<open>The checks that every later operation on the successor begins with.\<close>

definition successor_entry ::
  "('j, 'x) journal_env_scheme \<Rightarrow> Trust \<Rightarrow> JournalScope \<Rightarrow> 'j journal_db
     \<Rightarrow> (SuccessorParent \<times> LossSuccessorRecord) res" where
  "successor_entry E trust scope db =
     and_then (ensure_journal_format E scope db) (\<lambda>_.
     and_then (ensure_successor_live E trust db) (\<lambda>_.
     and_then (ensure_successor_not_aborted E trust db) (\<lambda>_.
     and_then (read_parent E trust scope db) (\<lambda>parent.
     and_then (ok_or parent ''loss parent missing'') (\<lambda>parent.
     and_then (read_successor E trust db) (\<lambda>r.
     and_then (ok_or r ''replacement transition missing'') (\<lambda>r. Inr (parent, r))))))))"

definition acknowledge_loss_successor ::
  "('j, 'x) journal_env_scheme \<Rightarrow> LossPolicy \<Rightarrow> Trust \<Rightarrow> JournalScope \<Rightarrow> CommittedLossSuccessorTransition
     \<Rightarrow> Participant \<Rightarrow> 'j journal_db \<Rightarrow> unit res \<times> 'j journal_db" where
  "acknowledge_loss_successor E policy trust scope decision member db = transact db (
     and_then (successor_entry E trust scope db) (\<lambda>(parent, r).
     ensure (sr_request r = cs_request decision
         \<and> sha256 E (as_bytes (sr_token r)) = cs_token_digest decision) ''replacement handle mismatch'' (
     and_then (ok_or (position (\<lambda>p. p = member) (s_participants (sr_request r)))
         ''replacement member mismatch'') (\<lambda>i.
     let source = pa_source_scope parent; loss = lr_request (pa_loss parent) in
     and_then (lp_continuity_and_fencing policy 0 source loss) (\<lambda>_.
     and_then (lp_loss_successor_applied policy source loss (sr_request r) member) (\<lambda>_.
     and_then (lp_continuity_and_fencing policy 1 source loss) (\<lambda>_.
     and_then (lp_loss_successor_continuity policy 0 scope (sr_request r)) (\<lambda>_.
       if at (sr_acknowledgements r) i then Inr (Inr (), db)
       else
         and_then (save_successor_replace E
             (r\<lparr>sr_acknowledgements := put (sr_acknowledgements r) i True\<rparr>) db) (\<lambda>db'.
           Inr (Inr (), db'))))))))))"

definition complete_loss_successor ::
  "('j, 'x) journal_env_scheme \<Rightarrow> LossPolicy \<Rightarrow> Trust \<Rightarrow> JournalScope \<Rightarrow> CommittedLossSuccessorTransition
     \<Rightarrow> Id \<Rightarrow> 'j journal_db \<Rightarrow> unit res \<times> 'j journal_db" where
  "complete_loss_successor E policy trust scope decision completion db = transact db (
     ensure (completion \<noteq> 0) ''zero replacement completion'' (
     and_then (successor_entry E trust scope db) (\<lambda>(parent, r).
     ensure (sr_request r = cs_request decision \<and> sr_acknowledgements r = (True, True))
       ''replacement completion evidence missing'' (
     and_then (successor_hooks policy 0 scope parent (sr_request r)) (\<lambda>_.
       case sr_completion r of
         Some old \<Rightarrow>
           Inr (ensure (old = completion) ''immutable replacement completion conflict'' (Inr ()), db)
       | None \<Rightarrow>
           and_then (save_successor_replace E (r\<lparr>sr_completion := Some completion\<rparr>) db) (\<lambda>db'.
             Inr (Inr (), db')))))))"

text \<open>The completed successor is read in two transactions; \<open>later\<close> is the database at the second.\<close>

definition fetch_completed_loss_successor ::
  "('j, 'x) journal_env_scheme \<Rightarrow> LossPolicy \<Rightarrow> Trust \<Rightarrow> JournalScope \<Rightarrow> LossSuccessorRequest \<Rightarrow> 'j journal_db
     \<Rightarrow> 'j journal_db \<Rightarrow> CompletedLossSuccessorTransition res" where
  "fetch_completed_loss_successor E policy trust scope s db later =
     and_then (fetch_loss_successor E policy trust scope s db) (\<lambda>d.
     ensure (cs_acknowledgements d = (True, True)) ''replacement acknowledgements incomplete'' (
     and_then (ensure_journal_format E scope later) (\<lambda>_.
     and_then (ensure_successor_live E trust later) (\<lambda>_.
     and_then (ensure_successor_not_aborted E trust later) (\<lambda>_.
     and_then (read_successor E trust later) (\<lambda>r.
     and_then (ok_or r ''replacement transition missing'') (\<lambda>r.
     and_then (ok_or (sr_completion r) ''replacement completion missing'') (\<lambda>completion.
       Inr \<lparr>cp_request = sr_request r, cp_token_digest = cs_token_digest d,
            cp_certificate_id = cs_certificate_id d, cp_completion = completion\<rparr>))))))))"

definition committed_successor_abort ::
  "('j, 'x) journal_env_scheme \<Rightarrow> Trust \<Rightarrow> SuccessorAbortRecord \<Rightarrow> CommittedLossSuccessorAbort res" where
  "committed_successor_abort E trust r =
     and_then (verify_successor_abort_historical E (xr_token r) trust (xr_abort r)) (\<lambda>certificate.
     ensure (certificate = xr_certificate_id r) ''loss successor abort certificate mismatch'' (
       Inr \<lparr>cx_abort = xr_abort r, cx_token = xr_token r,
            cx_token_digest = sha256 E (as_bytes (xr_token r)), cx_certificate_id = certificate\<rparr>))"

definition abort_bound :: 
  "('j, 'x) journal_env_scheme \<Rightarrow> JournalScope \<Rightarrow> LossSuccessorAbort \<Rightarrow> SuccessorParent \<Rightarrow> bool" where
  "abort_bound E scope x parent \<longleftrightarrow>
     x_install x = js_install scope
   \<and> x_region x = js_region scope
   \<and> x_scope x = js_scope scope
   \<and> x_schema x = js_schema scope
   \<and> x_membership x = js_membership scope
   \<and> x_authority_id x = js_authority_id scope
   \<and> x_parent_loss_certificate x = lr_certificate_id (pa_loss parent)
   \<and> x_parent_loss_token_digest x = sha256 E (as_bytes (lr_token (pa_loss parent)))"

definition abort_loss_successor ::
  "('j, 'x) journal_env_scheme \<Rightarrow> LossPolicy \<Rightarrow> Trust \<Rightarrow> JournalScope \<Rightarrow> LossSuccessorAbort \<Rightarrow> string \<Rightarrow> u64
     \<Rightarrow> 'j journal_db \<Rightarrow> CommittedLossSuccessorAbort res \<times> 'j journal_db" where
  "abort_loss_successor E policy trust scope x token now db = transact db (
     and_then (successor_abort_validate x) (\<lambda>_.
     ensure (len token \<le> MAX_TOKEN) ''token limit'' (
     and_then (ensure_journal_format E scope db) (\<lambda>_.
     and_then (ensure_successor_live E trust db) (\<lambda>_.
     and_then (read_parent E trust scope db) (\<lambda>parent.
     and_then (ok_or parent ''loss parent missing'') (\<lambda>parent.
     ensure (abort_bound E scope x parent) ''loss successor abort parent binding'' (
     let source = pa_source_scope parent; loss = lr_request (pa_loss parent) in
     and_then (lp_continuity_and_fencing policy 0 source loss) (\<lambda>_.
     and_then (read_successor_abort E trust db) (\<lambda>existing.
       case existing of
         Some existing \<Rightarrow>
           ensure (xr_abort existing = x \<and> xr_token existing = token)
             ''immutable loss successor abort conflict'' (
           and_then (lp_continuity_and_fencing policy 1 source loss) (\<lambda>_.
             Inr (committed_successor_abort E trust existing, db)))
       | None \<Rightarrow>
           and_then (read_successor E trust db) (\<lambda>successor.
           and_then (ok_or successor ''replacement transition missing'') (\<lambda>successor.
           ensure (s_id (sr_request successor) = x_successor_id x
               \<and> sr_certificate_id successor = x_successor_certificate x
               \<and> sha256 E (as_bytes (sr_token successor)) = x_successor_token_digest x
               \<and> s_revision (sr_request successor) = x_revision x)
             ''loss successor abort binding mismatch'' (
           ensure (sr_completion successor = None) ''completed loss successor cannot be aborted'' (
           and_then (lp_successor_abort_authorized policy source loss (sr_request successor) x) (\<lambda>_.
           and_then (verify_successor_abort_issuance E token trust x now) (\<lambda>certificate.
           and_then (lp_continuity_and_fencing policy 1 source loss) (\<lambda>_.
             let r = \<lparr>xr_format = 2, xr_abort = x, xr_token = token, xr_certificate_id = certificate\<rparr> in
             and_then (save_successor_abort E r db) (\<lambda>db'.
               Inr (committed_successor_abort E trust r, db')))))))))))))))))))"

definition fetch_loss_successor_abort ::
  "('j, 'x) journal_env_scheme \<Rightarrow> LossPolicy \<Rightarrow> Trust \<Rightarrow> JournalScope \<Rightarrow> LossSuccessorRequest \<Rightarrow> 'j journal_db
     \<Rightarrow> CommittedLossSuccessorAbort res" where
  "fetch_loss_successor_abort E policy trust scope s db =
     and_then (successor_validate s) (\<lambda>_.
     and_then (ensure_journal_format E scope db) (\<lambda>_.
     and_then (read_parent E trust scope db) (\<lambda>parent.
     and_then (ok_or parent ''loss parent missing'') (\<lambda>parent.
     and_then (read_successor_abort E trust db) (\<lambda>r.
     and_then (ok_or r ''loss successor abort missing'') (\<lambda>r.
     and_then (read_successor E trust db) (\<lambda>decided.
     and_then (ok_or decided ''replacement transition missing'') (\<lambda>decided.
     ensure (sr_request decided = s
         \<and> x_successor_id (xr_abort r) = s_id s
         \<and> x_successor_certificate (xr_abort r) = sr_certificate_id decided
         \<and> x_successor_token_digest (xr_abort r) = sha256 E (as_bytes (sr_token decided)))
       ''loss successor abort binding mismatch'' (
     and_then (lp_continuity_and_fencing policy 0 (pa_source_scope parent) (lr_request (pa_loss parent))) (\<lambda>_.
       committed_successor_abort E trust r))))))))))"

section \<open>What each operation does\<close>

definition loss_record :: "LossRequest \<Rightarrow> string \<Rightarrow> Id \<Rightarrow> LossRecord" where
  "loss_record l token certificate = \<lparr>lr_request = l, lr_token = token, lr_certificate_id = certificate\<rparr>"

definition save_loss_record ::
  "('j, 'x) journal_env_scheme \<Rightarrow> LossRecord \<Rightarrow> 'j journal_db \<Rightarrow> 'j journal_db res" where
  "save_loss_record E r db = (if l_supersedes (lr_request r) \<noteq> None then save_chain_record E r db else save_loss E r db)"

lemma decide_loss_effect:
  assumes "decide_loss E policy trust scope l token now db = (v, db')"
  shows "db' = db
    \<or> (\<exists>h base losses expected certificate.
         loss_validate l = Inr () \<and> journal_read E trust scope db = Inr h \<and> loss_base E trust scope h l db = Inr base
       \<and> maintenance_hooks policy scope l = Inr () \<and> read_loss_history E trust db = Inr losses
       \<and> loss_expected E policy trust scope base l losses db = Inr expected
       \<and> checked_add expected 1 = Some (l_revision l)
       \<and> verify_loss E token trust l (Some now) = Inr certificate
       \<and> lp_continuity_and_fencing policy 0 scope l = Inr () \<and> lp_survivor_prepared policy scope l = Inr ()
       \<and> lp_continuity_and_fencing policy 1 scope l = Inr ()
       \<and> save_loss_record E (loss_record l token certificate) db = Inr db'
       \<and> v = committed_loss E trust (loss_record l token certificate))"
  using assms
  by (auto simp: decide_loss_def transact_def and_then_def ensure_def ok_or_def Let_def save_loss_record_def
      loss_record_def split: sum.splits option.splits if_splits)

definition fresh_successor :: "LossSuccessorRequest \<Rightarrow> string \<Rightarrow> Id \<Rightarrow> LossSuccessorRecord" where
  "fresh_successor s token certificate =
     \<lparr>sr_request = s, sr_token = token, sr_certificate_id = certificate,
      sr_acknowledgements = (False, False), sr_completion = None\<rparr>"

lemma decide_loss_successor_effect:
  assumes "decide_loss_successor E policy trust scope s token now db = (v, db')"
  shows "db' = db
    \<or> (\<exists>h parent replacement certificate.
         successor_validate s = Inr () \<and> journal_read E trust scope db = Inr h \<and> hi_head h = None
       \<and> ensure_successor_live E trust db = Inr () \<and> ensure_successor_not_aborted E trust db = Inr ()
       \<and> read_parent E trust scope db = Inr (Some parent) \<and> successor_replacement s = Inr replacement
       \<and> \<not> retired_contains (pa_retired parent) (pt_member replacement) (pt_generation replacement) (s_membership s)
       \<and> validate_successor_request scope (lr_request (pa_loss parent)) s = Inr ()
       \<and> parent_bound E s parent \<and> read_successor E trust db = Inr None
       \<and> successor_hooks policy 0 scope parent s = Inr ()
       \<and> verify_loss_successor E token trust s (Some now) = Inr certificate
       \<and> successor_hooks policy 1 scope parent s = Inr ()
       \<and> save_successor E (fresh_successor s token certificate) db = Inr db'
       \<and> v = committed_successor E (fresh_successor s token certificate) parent)"
  using assms
  by (auto simp: decide_loss_successor_def transact_def and_then_def ensure_def ok_or_def Let_def
      fresh_successor_def split: sum.splits option.splits if_splits)

lemma successor_entry_Inr:
  "successor_entry E trust scope db = Inr (parent, r) \<longleftrightarrow>
     ensure_journal_format E scope db = Inr () \<and> ensure_successor_live E trust db = Inr ()
   \<and> ensure_successor_not_aborted E trust db = Inr () \<and> read_parent E trust scope db = Inr (Some parent)
   \<and> read_successor E trust db = Inr (Some r)"
  by (auto simp: successor_entry_def res_simps)

lemma acknowledge_loss_successor_effect:
  assumes "acknowledge_loss_successor E policy trust scope decision member db = (v, db')"
  shows "db' = db
    \<or> (\<exists>parent r i. successor_entry E trust scope db = Inr (parent, r) \<and> sr_request r = cs_request decision
       \<and> at (s_participants (sr_request r)) i = member \<and> \<not> at (sr_acknowledgements r) i
       \<and> lp_loss_successor_applied policy (pa_source_scope parent) (lr_request (pa_loss parent)) (sr_request r) member
           = Inr ()
       \<and> save_successor_replace E (r\<lparr>sr_acknowledgements := put (sr_acknowledgements r) i True\<rparr>) db = Inr db'
       \<and> v = Inr ())"
  using assms
  by (auto simp: acknowledge_loss_successor_def transact_def and_then_def ensure_def ok_or_def Let_def
      dest!: position_Some split: sum.splits option.splits if_splits prod.splits)

lemma complete_loss_successor_effect:
  assumes "complete_loss_successor E policy trust scope decision completion db = (v, db')"
  shows "db' = db
    \<or> (\<exists>parent r. successor_entry E trust scope db = Inr (parent, r) \<and> sr_request r = cs_request decision
       \<and> sr_acknowledgements r = (True, True) \<and> sr_completion r = None \<and> completion \<noteq> 0
       \<and> successor_hooks policy 0 scope parent (sr_request r) = Inr ()
       \<and> save_successor_replace E (r\<lparr>sr_completion := Some completion\<rparr>) db = Inr db' \<and> v = Inr ())"
  using assms
  by (auto simp: complete_loss_successor_def transact_def and_then_def ensure_def ok_or_def
      split: sum.splits option.splits if_splits prod.splits)

definition successor_abort_record :: "LossSuccessorAbort \<Rightarrow> string \<Rightarrow> Id \<Rightarrow> SuccessorAbortRecord" where
  "successor_abort_record x token certificate =
     \<lparr>xr_format = 2, xr_abort = x, xr_token = token, xr_certificate_id = certificate\<rparr>"

lemma abort_loss_successor_effect:
  assumes "abort_loss_successor E policy trust scope x token now db = (v, db')"
  shows "db' = db
    \<or> (\<exists>parent r certificate. ensure_journal_format E scope db = Inr () \<and> ensure_successor_live E trust db = Inr ()
       \<and> read_parent E trust scope db = Inr (Some parent) \<and> abort_bound E scope x parent
       \<and> read_successor_abort E trust db = Inr None \<and> read_successor E trust db = Inr (Some r)
       \<and> s_id (sr_request r) = x_successor_id x \<and> sr_completion r = None
       \<and> lp_successor_abort_authorized policy (pa_source_scope parent) (lr_request (pa_loss parent)) (sr_request r) x
           = Inr ()
       \<and> verify_successor_abort_issuance E token trust x now = Inr certificate
       \<and> save_successor_abort E (successor_abort_record x token certificate) db = Inr db'
       \<and> v = committed_successor_abort E trust (successor_abort_record x token certificate))"
  using assms
  by (auto simp: abort_loss_successor_def transact_def and_then_def ensure_def ok_or_def Let_def
      successor_abort_record_def split: sum.splits option.splits if_splits)

section \<open>Reading the losses back\<close>

lemma signed_now_None:
  "verify_loss E token trust l (Some now) = Inr c \<Longrightarrow> verify_loss E token trust l None = Inr c"
  "verify_loss_successor E token trust s (Some now) = Inr c \<Longrightarrow> verify_loss_successor E token trust s None = Inr c"
  "verify_successor_abort_issuance E token trust x now = Inr c \<Longrightarrow> verify_successor_abort_historical E token trust x = Inr c"
  by (auto simp: verify_loss_def verify_loss_successor_def verify_successor_abort_issuance_def
      verify_successor_abort_historical_def verify_successor_abort_def verify_signed_Inr in_window_def)

definition chain_rows :: "'j journal_db \<Rightarrow> 'j row table" where
  "chain_rows db = (case jd_chain db of None \<Rightarrow> [] | Some t \<Rightarrow> t)"

text \<open>Is there a loss row at all?\<close>

definition lost :: "'j journal_db \<Rightarrow> bool" where
  "lost db \<longleftrightarrow> is_some_and (jd_loss db) (\<lambda>row. row \<noteq> None)"

lemma read_chain_rows_append:
  "read_chain_rows E trust history (rows @ rest) =
     and_then (read_chain_rows E trust history rows) (\<lambda>history'. read_chain_rows E trust history' rest)"
proof (induction rows arbitrary: history)
  case (Cons entry rows)
  obtain n row where "entry = (n, row)" by (cases entry)
  then show ?case
    using Cons by (auto simp: and_then_def ensure_def ok_or_def split: sum.splits option.splits)
qed simp

lemma decode_loss_row_Inr:
  "decode_loss_row E trust row = Inr r \<longleftrightarrow>
     row_intact E row \<and> loss_dec E (fst row) = Some r
   \<and> verify_loss E (lr_token r) trust (lr_request r) None = Inr (lr_certificate_id r)"
  by (auto simp: decode_loss_row_def res_simps)

text \<open>The links of the chain: each loss names the one before it and takes the next revision.\<close>

definition loss_link :: "('j, 'x) journal_env_scheme \<Rightarrow> LossRecord \<Rightarrow> LossRecord \<Rightarrow> bool" where
  "loss_link E previous r \<longleftrightarrow>
     (\<exists>s. l_supersedes (lr_request r) = Some s \<and> sp_loss_certificate s = lr_certificate_id previous
        \<and> sp_loss_token_digest s = sha256 E (as_bytes (lr_token previous)))
   \<and> unat (l_revision (lr_request r)) = Suc (unat (l_revision (lr_request previous)))"

lemma read_chain_rows_one:
  assumes "history \<noteq> []"
  shows "read_chain_rows E trust history [(n, row)] = Inr history' \<longleftrightarrow>
    (\<exists>r. decode_loss_row E trust row = Inr r \<and> n = l_revision (lr_request r) \<and> loss_link E (last history) r
       \<and> history' = history @ [r])"
  using assms
  by (auto simp: and_then_Inr ensure_Inr ok_or_Inr last_loss_def loss_link_def checked_add_one)

lemma read_chain_rows_inv:
  "read_chain_rows E trust [first] rows = Inr history \<Longrightarrow>
     history \<noteq> [] \<and> length history = Suc (length rows)
   \<and> (\<forall>k \<in> fst ` set rows. k \<le> l_revision (lr_request (last history)))
   \<and> hd history = first \<and> successively (loss_link E) history"
proof (induction rows arbitrary: history rule: rev_induct)
  case (snoc entry rows)
  obtain n row where entry: "entry = (n, row)" by (cases entry)
  obtain old where old: "read_chain_rows E trust [first] rows = Inr old"
    "read_chain_rows E trust old [(n, row)] = Inr history"
    using snoc.prems by (auto simp: entry read_chain_rows_append and_then_Inr simp del: read_chain_rows.simps)
  note IH = snoc.IH [OF old(1)]
  then obtain r where r: "n = l_revision (lr_request r)" "loss_link E (last old) r" "history = old @ [r]"
    using old(2) by (auto simp: read_chain_rows_one simp del: read_chain_rows.simps)
  have "l_revision (lr_request (last old)) \<le> l_revision (lr_request r)"
    using r(2) by (simp add: loss_link_def word_le_nat_alt)
  with IH r show ?case
    by (auto simp: entry successively_append_iff intro: order_trans)
qed simp

lemma read_loss_history_empty:
  "read_loss_history E trust db = Inr [] \<Longrightarrow> \<not> lost db"
  by (auto simp: read_loss_history_def lost_def Let_def res_simps dest: read_chain_rows_inv split: option.splits)

lemma read_loss_history_Inr:
  assumes "losses \<noteq> []"
  shows "read_loss_history E trust db = Inr losses \<longleftrightarrow>
    (\<exists>row first. jd_loss db = Some (Some row) \<and> decode_loss_row E trust row = Inr first
       \<and> l_supersedes (lr_request first) = None
       \<and> len (chain_rows db) \<le> MAX_CHAIN_ROWS
       \<and> (\<forall>row \<in> set (map snd (chain_rows db)). j_chars E (fst row) \<le> MAX_JOURNAL_RECORD)
       \<and> read_chain_rows E trust [first] (chain_rows db) = Inr losses
       \<and> (case read_chain_head db of
            None \<Rightarrow> chain_rows db = []
          | Some (revision, rows) \<Rightarrow> jd_chain db \<noteq> None \<and> uint rows + 1 = len losses
              \<and> l_revision (lr_request (last losses)) = revision))"
  using assms
  by (auto simp: read_loss_history_def Let_def res_simps chain_rows_def MAX_CHAIN_ROWS_def last_loss_def len_def
      dest: read_chain_rows_inv split: option.splits) (force+)

lemma chain_rows_frame [simp]: "chain_rows (db\<lparr>jd_scope := s\<rparr>) = chain_rows db"
  by (simp add: chain_rows_def)

lemma save_loss_Inr:
  "save_loss E r db = Inr db' \<longleftrightarrow>
     \<not> lost db \<and> (\<exists>json. loss_enc E r = Some json \<and> j_len E json \<le> MAX_JOURNAL_RECORD
       \<and> db' = db\<lparr>jd_loss := Some (Some (row_of E json))\<rparr>)"
  by (cases "jd_loss db"; cases "the (jd_loss db)")
     (auto simp: save_loss_def lost_def res_simps MAX_JOURNAL_RECORD_def)

lemma save_chain_record_Inr:
  "save_chain_record E r db = Inr db' \<longleftrightarrow>
     (\<exists>json m. loss_enc E r = Some json \<and> j_len E json \<le> MAX_JOURNAL_RECORD
       \<and> mark_journal_format_two E db = Inr m \<and> l_revision (lr_request r) \<notin> fst ` set (chain_rows m)
       \<and> db' = m\<lparr>jd_chain := Some (tab_add (l_revision (lr_request r)) (row_of E json) (chain_rows m)),
             jd_chain_head := Some (Some (l_revision (lr_request r),
               of_int (len (tab_add (l_revision (lr_request r)) (row_of E json) (chain_rows m)))))\<rparr>)"
  by (auto simp: save_chain_record_def tab_insert_def chain_rows_def [symmetric] res_simps MAX_JOURNAL_RECORD_def)

lemma save_loss_reads:
  assumes lawful: "journal_lawful E" and save: "save_loss E r db = Inr db'"
    and none: "jd_chain db = None" "jd_chain_head db = None"
    and r: "verify_loss E (lr_token r) trust (lr_request r) None = Inr (lr_certificate_id r)"
      "l_supersedes (lr_request r) = None"
  shows "read_loss_history E trust db' = Inr [r]"
proof -
  obtain json where json: "loss_enc E r = Some json" "j_len E json \<le> MAX_JOURNAL_RECORD"
    and db': "db' = db\<lparr>jd_loss := Some (Some (row_of E json))\<rparr>"
    using save by (auto simp: save_loss_Inr)
  have "decode_loss_row E trust (row_of E json) = Inr r"
    using r json row_intact_row_of lawful_codecs(3) [OF lawful json(1)]
    by (simp add: decode_loss_row_Inr row_of_def)
  with r none show ?thesis by (simp add: db' read_loss_history_def read_chain_head_def)
qed

text \<open>
  A superseding loss is read back as the last of the chain as long as the chain has room; saving it
  does not check that it has.
\<close>

lemma save_chain_reads:
  assumes lawful: "journal_lawful E" and save: "save_chain_record E r db = Inr db'"
    and read: "read_loss_history E trust db = Inr losses" "losses \<noteq> []"
    and r: "verify_loss E (lr_token r) trust (lr_request r) None = Inr (lr_certificate_id r)"
      "loss_link E (last losses) r"
  shows "read_loss_history E trust db' =
    (if len losses \<le> MAX_CHAIN_ROWS then Inr (losses @ [r]) else Inl (Refused ''loss chain row limit''))"
proof -
  obtain row first where
    old: "jd_loss db = Some (Some row)" "decode_loss_row E trust row = Inr first"
      "l_supersedes (lr_request first) = None" "len (chain_rows db) \<le> MAX_CHAIN_ROWS"
      "\<forall>row \<in> set (map snd (chain_rows db)). j_chars E (fst row) \<le> MAX_JOURNAL_RECORD"
      "read_chain_rows E trust [first] (chain_rows db) = Inr losses"
    using read by (auto simp: read_loss_history_Inr)
  note inv = read_chain_rows_inv [OF old(6)]
  have above: "\<forall>k \<in> fst ` set (chain_rows db). k < l_revision (lr_request r)"
  proof
    fix k assume "k \<in> fst ` set (chain_rows db)"
    then have "k \<le> l_revision (lr_request (last losses))" using inv by blast
    then show "k < l_revision (lr_request r)"
      using r(2) by (simp add: loss_link_def word_le_nat_alt word_less_nat_alt)
  qed
  obtain json m where json: "loss_enc E r = Some json" "j_len E json \<le> MAX_JOURNAL_RECORD"
    and m: "mark_journal_format_two E db = Inr m"
    and m': "db' = m\<lparr>jd_chain := Some (tab_add (l_revision (lr_request r)) (row_of E json) (chain_rows m)),
             jd_chain_head := Some (Some (l_revision (lr_request r),
               of_int (len (tab_add (l_revision (lr_request r)) (row_of E json) (chain_rows m)))))\<rparr>"
    using save by (auto simp: save_chain_record_Inr)
  obtain raw where raw: "m = db\<lparr>jd_scope := Some raw\<rparr>" using mark_frame [OF m] ..
  have "len (chain_rows db @ [(l_revision (lr_request r), row_of E json)]) = len losses"
    using inv by (simp add: len_def)
  then have db': "db' = db\<lparr>jd_scope := Some raw,
      jd_chain := Some (chain_rows db @ [(l_revision (lr_request r), row_of E json)]),
      jd_chain_head := Some (Some (l_revision (lr_request r), of_int (len losses)))\<rparr>"
    using above by (simp add: m' raw tab_add_last)
  have rows: "chain_rows db' = chain_rows db @ [(l_revision (lr_request r), row_of E json)]"
    "read_chain_head db' = Some (l_revision (lr_request r), of_int (len losses))" "jd_loss db' = jd_loss db"
    "jd_chain db' \<noteq> None"
    by (simp_all add: db' chain_rows_def read_chain_head_def)
  have new: "decode_loss_row E trust (row_of E json) = Inr r"
    using r json row_intact_row_of lawful_codecs(3) [OF lawful json(1)]
    by (simp add: decode_loss_row_Inr row_of_def)
  have n: "len (chain_rows db') = len losses" using inv by (simp add: rows len_def)
  show ?thesis
  proof (cases "len losses \<le> MAX_CHAIN_ROWS")
    case True
    then have u: "uint (of_int (len losses) :: u64) = len losses"
      by (simp add: len_def MAX_CHAIN_ROWS_def uint_nat unat_of_nat)
    have "read_chain_rows E trust [first] (chain_rows db') = Inr (losses @ [r])"
      using old(6) new r(2) read(2)
      by (simp add: rows read_chain_rows_append read_chain_rows_one del: read_chain_rows.simps)
    moreover have "\<forall>row \<in> set (map snd (chain_rows db')). j_chars E (fst row) \<le> MAX_JOURNAL_RECORD"
      using old(5) json(2) lawful_codecs(8) [OF lawful, of json] by (auto simp: rows row_of_def)
    ultimately have "read_loss_history E trust db' = Inr (losses @ [r])"
      using old True n u rows by (subst read_loss_history_Inr) (auto simp: len_def)
    with True show ?thesis by simp
  next
    case False
    then show ?thesis
      using old rows n by (auto simp: read_loss_history_def Let_def chain_rows_def ensure_def split: option.splits)
  qed
qed

end
