(* ===== verification/Transition_Runs.thy ===== *)
theory Transition_Runs
  imports Transition_Loss
begin

text \<open>
  Runs of a transition journal: any sequence of the operations of \<^verbatim>\<open>transition.rs\<close> and
  \<^verbatim>\<open>transition/loss.rs\<close> that write, in any order, with any arguments and any answers of the
  integrator's hooks. The transition at each revision and the loss successor are shown to follow
  the one-way contract of \<open>One_Way\<close>; what a loss closes and which identities it burns are invariants
  of every run.
\<close>

section \<open>Operations and runs\<close>

datatype journal_op =
    Decide TransitionPolicy TransitionRequest string u64
  | Acknowledge TransitionPolicy CommittedTransition Participant
  | Complete TransitionPolicy CommittedTransition Id
  | Abort TransitionPolicy MaintenanceAbort string u64
  | Decide_Loss LossPolicy LossRequest string u64
  | Decide_Successor LossPolicy LossSuccessorRequest string u64
  | Acknowledge_Successor LossPolicy CommittedLossSuccessorTransition Participant
  | Complete_Successor LossPolicy CommittedLossSuccessorTransition Id
  | Abort_Successor LossPolicy LossSuccessorAbort string u64

text \<open>What an operation answers, reduced to whether it was accepted, and the database it leaves.\<close>

definition accepted :: "'a res \<times> 'd \<Rightarrow> unit res \<times> 'd" where
  "accepted result = (and_then (fst result) (\<lambda>_. Inr ()), snd result)"

fun journal_call ::
  "('j, 'x) journal_env_scheme \<Rightarrow> Trust \<Rightarrow> JournalScope \<Rightarrow> journal_op \<Rightarrow> 'j journal_db \<Rightarrow> unit res \<times> 'j journal_db" where
  "journal_call E trust scope (Decide policy request token now) db =
     accepted (journal_decide E policy trust scope request token now db)"
| "journal_call E trust scope (Acknowledge policy decision member) db =
     journal_acknowledge E policy trust scope decision member db"
| "journal_call E trust scope (Complete policy decision completion) db =
     journal_complete E policy trust scope decision completion db"
| "journal_call E trust scope (Abort policy abort token now) db =
     accepted (journal_abort E policy trust scope abort token now db)"
| "journal_call E trust scope (Decide_Loss policy l token now) db =
     accepted (decide_loss E policy trust scope l token now db)"
| "journal_call E trust scope (Decide_Successor policy s token now) db =
     accepted (decide_loss_successor E policy trust scope s token now db)"
| "journal_call E trust scope (Acknowledge_Successor policy decision member) db =
     acknowledge_loss_successor E policy trust scope decision member db"
| "journal_call E trust scope (Complete_Successor policy decision completion) db =
     complete_loss_successor E policy trust scope decision completion db"
| "journal_call E trust scope (Abort_Successor policy x token now) db =
     accepted (abort_loss_successor E policy trust scope x token now db)"

definition journal_exec ::
  "('j, 'x) journal_env_scheme \<Rightarrow> Trust \<Rightarrow> JournalScope \<Rightarrow> journal_op \<Rightarrow> 'j journal_db \<Rightarrow> 'j journal_db" where
  "journal_exec E trust scope x db = snd (journal_call E trust scope x db)"

definition journal_run ::
  "('j, 'x) journal_env_scheme \<Rightarrow> Trust \<Rightarrow> JournalScope \<Rightarrow> journal_op list \<Rightarrow> 'j journal_db \<Rightarrow> 'j journal_db" where
  "journal_run E trust scope xs db = fold (journal_exec E trust scope) xs db"

lemma journal_run_simps [simp]:
  "journal_run E trust scope [] db = db"
  "journal_run E trust scope (x # xs) db = journal_run E trust scope xs (journal_exec E trust scope x db)"
  "journal_run E trust scope (xs @ ys) db = journal_run E trust scope ys (journal_run E trust scope xs db)"
  by (simp_all add: journal_run_def)

text \<open>An invariant of every operation is an invariant of every run.\<close>

lemma journal_run_invariant:
  assumes "\<And>x db. P db \<Longrightarrow> P (journal_exec E trust scope x db)"
  shows "P db \<Longrightarrow> P (journal_run E trust scope xs db)"
  by (induction xs arbitrary: db) (simp_all add: assms)

section \<open>The writes of a run\<close>

text \<open>
  Every operation either leaves the database as it was or makes one of the following writes, with
  what had been checked before it.
\<close>

inductive journal_write ::
  "('j, 'x) journal_env_scheme \<Rightarrow> Trust \<Rightarrow> JournalScope \<Rightarrow> 'j journal_db \<Rightarrow> 'j journal_db \<Rightarrow> bool"
  for E trust scope db where
  write_decide:
    "journal_read E trust scope db = Inr h \<Longrightarrow> loss_record_exists E trust db = Inr False \<Longrightarrow>
     decide_checks E policy trust scope h request token now = Inr verified \<Longrightarrow>
     save_transition E (fresh_record request token) db = Inr db' \<Longrightarrow>
     hi_head h \<noteq> None \<or> \<not> successor_parent_exists db \<Longrightarrow>
     journal_write E trust scope db db'"
| write_acknowledge:
    "journal_read E trust scope db = Inr h \<Longrightarrow> loss_record_exists E trust db = Inr False \<Longrightarrow>
     hi_head h = Some r \<Longrightarrow> r_completion r = None \<Longrightarrow>
     replace_transition E (r\<lparr>r_acknowledgements := put (r_acknowledgements r) i True\<rparr>) db = Inr db' \<Longrightarrow>
     journal_write E trust scope db db'"
| write_complete:
    "journal_read E trust scope db = Inr h \<Longrightarrow> loss_record_exists E trust db = Inr False \<Longrightarrow>
     hi_head h = Some r \<Longrightarrow> r_completion r = None \<Longrightarrow> r_acknowledgements r = (True, True) \<Longrightarrow> c \<noteq> 0 \<Longrightarrow>
     replace_transition E (r\<lparr>r_completion := Some c\<rparr>) db = Inr db' \<Longrightarrow>
     journal_write E trust scope db db'"
| write_abort:
    "journal_read E trust scope db = Inr h \<Longrightarrow> loss_record_exists E trust db = Inr False \<Longrightarrow>
     maintenance_abort_validate (ar_abort x) = Inr () \<Longrightarrow> scope_binds_abort scope (ar_abort x) \<Longrightarrow>
     ar_format x = 2 \<Longrightarrow>
     verify_abort_historical E (ar_token x) trust (ar_abort x) = Inr (ar_certificate_id x) \<Longrightarrow>
     abort_at h (a_aborted_revision (ar_abort x)) = None \<Longrightarrow> abort_target E h (ar_abort x) = Inr () \<Longrightarrow>
     len (hi_aborts h) < MAX_ABORT_ROWS \<Longrightarrow> save_abort E x db = Inr db'' \<Longrightarrow>
     db' = db''\<lparr>jd_head := Some (max (hi_last_revision h) (a_aborted_revision (ar_abort x)))\<rparr> \<Longrightarrow>
     journal_write E trust scope db db'"
| write_loss:
    "journal_read E trust scope db = Inr h \<Longrightarrow> loss_base E trust scope h (lr_request r) db = Inr base \<Longrightarrow>
     read_loss_history E trust db = Inr losses \<Longrightarrow>
     loss_expected E policy trust scope base (lr_request r) losses db = Inr expected \<Longrightarrow>
     checked_add expected 1 = Some (l_revision (lr_request r)) \<Longrightarrow>
     verify_loss E (lr_token r) trust (lr_request r) None = Inr (lr_certificate_id r) \<Longrightarrow>
     save_loss_record E r db = Inr db' \<Longrightarrow>
     journal_write E trust scope db db'"
| write_successor:
    "ensure_journal_format E scope db = Inr () \<Longrightarrow> loss_record_exists E trust db = Inr False \<Longrightarrow>
     read_successor_abort E trust db = Inr None \<Longrightarrow> read_successor E trust db = Inr None \<Longrightarrow>
     save_successor E (fresh_successor s token certificate) db = Inr db' \<Longrightarrow>
     journal_write E trust scope db db'"
| write_successor_acknowledge:
    "ensure_journal_format E scope db = Inr () \<Longrightarrow> loss_record_exists E trust db = Inr False \<Longrightarrow>
     read_successor_abort E trust db = Inr None \<Longrightarrow> read_successor E trust db = Inr (Some u) \<Longrightarrow>
     \<not> at (sr_acknowledgements u) i \<Longrightarrow>
     save_successor_replace E (u\<lparr>sr_acknowledgements := put (sr_acknowledgements u) i True\<rparr>) db = Inr db' \<Longrightarrow>
     journal_write E trust scope db db'"
| write_successor_complete:
    "ensure_journal_format E scope db = Inr () \<Longrightarrow> loss_record_exists E trust db = Inr False \<Longrightarrow>
     read_successor_abort E trust db = Inr None \<Longrightarrow> read_successor E trust db = Inr (Some u) \<Longrightarrow>
     sr_acknowledgements u = (True, True) \<Longrightarrow> sr_completion u = None \<Longrightarrow> c \<noteq> 0 \<Longrightarrow>
     save_successor_replace E (u\<lparr>sr_completion := Some c\<rparr>) db = Inr db' \<Longrightarrow>
     journal_write E trust scope db db'"
| write_successor_abort:
    "ensure_journal_format E scope db = Inr () \<Longrightarrow> loss_record_exists E trust db = Inr False \<Longrightarrow>
     read_successor_abort E trust db = Inr None \<Longrightarrow> read_successor E trust db = Inr (Some u) \<Longrightarrow>
     sr_completion u = None \<Longrightarrow> save_successor_abort E z db = Inr db' \<Longrightarrow>
     journal_write E trust scope db db'"

lemma live_Inr: "ensure_successor_live E trust db = Inr u \<longleftrightarrow> loss_record_exists E trust db = Inr False"
  by (auto simp: ensure_successor_live_def res_simps)

lemma not_aborted_Inr: "ensure_successor_not_aborted E trust db = Inr u \<longleftrightarrow> read_successor_abort E trust db = Inr None"
  by (auto simp: ensure_successor_not_aborted_def res_simps)

lemma journal_read_format: "journal_read E trust scope db = Inr h \<Longrightarrow> ensure_journal_format E scope db = Inr ()"
  by (auto simp: read_any_selection [of _ _ _ _ _ None] read_with_revision_Inr read_ok_def)

lemma snd_accepted [simp]: "snd (accepted p) = snd p"
  by (simp add: accepted_def)

lemmas write_facts = live_Inr not_aborted_Inr successor_entry_Inr

lemma journal_exec_write:
  "journal_exec E trust scope x db = db \<or> journal_write E trust scope db (journal_exec E trust scope x db)"
proof (cases x)
  case (Decide policy request token now)
  then show ?thesis
    using journal_decide_effect [OF surjective_pairing, of E policy trust scope request token now db]
    by (auto simp: journal_exec_def intro: write_decide)
next
  case (Acknowledge policy decision member)
  then show ?thesis
    using journal_acknowledge_effect [OF surjective_pairing, of E policy trust scope decision member db]
    by (auto simp: journal_exec_def intro: write_acknowledge)
next
  case (Complete policy decision c)
  then show ?thesis
    using journal_complete_effect [OF surjective_pairing, of E policy trust scope decision c db]
    by (auto simp: journal_exec_def intro: write_complete)
next
  case (Abort policy a token now)
  then show ?thesis
    using journal_abort_effect [OF surjective_pairing, of E policy trust scope a token now db]
    by (auto simp: journal_exec_def Let_def dest!: verify_abort_issuance_historical
        intro: write_abort [where x = "\<lparr>ar_format = 2, ar_abort = a, ar_token = token, ar_certificate_id = c\<rparr>" for c,
          simplified])
next
  case (Decide_Loss policy l token now)
  then show ?thesis
    using decide_loss_effect [OF surjective_pairing, of E policy trust scope l token now db]
    by (auto simp: journal_exec_def loss_record_def dest!: signed_now_None
        intro: write_loss [where r = "\<lparr>lr_request = l, lr_token = token, lr_certificate_id = c\<rparr>" for c, simplified])
next
  case (Decide_Successor policy s token now)
  then show ?thesis
    using decide_loss_successor_effect [OF surjective_pairing, of E policy trust scope s token now db]
    by (auto simp: journal_exec_def write_facts intro: write_successor journal_read_format)
next
  case (Acknowledge_Successor policy decision member)
  then show ?thesis
    using acknowledge_loss_successor_effect [OF surjective_pairing, of E policy trust scope decision member db]
    by (auto simp: journal_exec_def write_facts intro: write_successor_acknowledge)
next
  case (Complete_Successor policy decision c)
  then show ?thesis
    using complete_loss_successor_effect [OF surjective_pairing, of E policy trust scope decision c db]
    by (auto simp: journal_exec_def write_facts intro: write_successor_complete)
next
  case (Abort_Successor policy a token now)
  then show ?thesis
    using abort_loss_successor_effect [OF surjective_pairing, of E policy trust scope a token now db]
    by (auto simp: journal_exec_def write_facts intro: write_successor_abort)
qed

section \<open>The life of a transition\<close>

definition transition_life :: "TransitionRecord \<Rightarrow> (TransitionRequest \<times> string) life" where
  "transition_life r =
     (case r_completion r of
        None \<Rightarrow> Open (r_request r, r_token r) (r_acknowledgements r)
      | Some c \<Rightarrow> Done (r_request r, r_token r) c)"

definition life_at :: "u64 \<Rightarrow> History \<times> TransitionRecord option \<Rightarrow> (TransitionRequest \<times> string) life" where
  "life_at n = (\<lambda>(h, selected).
     if abort_at h n \<noteq> None then Cancelled
     else case selected of None \<Rightarrow> Vacant | Some r \<Rightarrow> transition_life r)"

text \<open>What the journal says about the transition at revision \<open>n\<close>.\<close>

definition transition_view ::
  "('j, 'x) journal_env_scheme \<Rightarrow> Trust \<Rightarrow> JournalScope \<Rightarrow> u64 \<Rightarrow> 'j journal_db
     \<Rightarrow> (TransitionRequest \<times> string) life option" where
  "transition_view E trust scope n db =
     (case read_with_revision E trust scope (Some n) db of Inl _ \<Rightarrow> None | Inr read \<Rightarrow> Some (life_at n read))"

lemma transition_view_Some:
  "transition_view E trust scope n db = Some v \<longleftrightarrow>
     (\<exists>h sel. read_with_revision E trust scope (Some n) db = Inr (h, sel) \<and> v = life_at n (h, sel))"
  by (auto simp: transition_view_def split: sum.splits)

lemma transition_view_None:
  "transition_view E trust scope n db = None \<longleftrightarrow> (\<forall>h. journal_read E trust scope db \<noteq> Inr h)"
proof -
  have "(\<forall>h. journal_read E trust scope db \<noteq> Inr h) \<longleftrightarrow> (\<forall>x. read_with_revision E trust scope (Some n) db \<noteq> Inr x)"
    by (auto simp: read_any_selection [of _ _ _ _ _ "Some n"])
  then show ?thesis by (auto simp: transition_view_def split: sum.splits)
qed

text \<open>A write to the tables of losses and successors does not change what is read of transitions.\<close>

lemma read_with_revision_cong:
  assumes "jd_head db' = jd_head db" "jd_history db' = jd_history db" "jd_abort db' = jd_abort db"
    "jd_parent db' = jd_parent db" "ensure_journal_format E scope db' = ensure_journal_format E scope db"
  shows "read_with_revision E trust scope select db' = read_with_revision E trust scope select db"
  unfolding read_with_revision_def validate_successor_parent_def read_parent_def read_aborts_def assms ..

definition same_transitions :: "('j, 'x) journal_env_scheme \<Rightarrow> JournalScope \<Rightarrow> 'j journal_db \<Rightarrow> 'j journal_db \<Rightarrow> bool" where
  "same_transitions E scope db db' \<longleftrightarrow>
     jd_head db' = jd_head db \<and> jd_history db' = jd_history db \<and> jd_abort db' = jd_abort db
   \<and> jd_parent db' = jd_parent db \<and> ensure_journal_format E scope db' = ensure_journal_format E scope db"

lemma same_transitions_view:
  "same_transitions E scope db db' \<Longrightarrow> transition_view E trust scope n db' = transition_view E trust scope n db"
  using read_with_revision_cong [of db' db E scope trust "Some n"]
  by (simp add: transition_view_def same_transitions_def)

lemma marked_same:
  assumes "journal_lawful E" "ensure_journal_format E scope db = Inr ()" "mark_journal_format_two E db = Inr m"
    and "jd_scope db' = jd_scope m" "jd_head db' = jd_head m" "jd_history db' = jd_history m"
    "jd_abort db' = jd_abort m" "jd_parent db' = jd_parent m"
  shows "same_transitions E scope db db'"
  using assms mark_frame [OF assms(3)] mark_format_ok [OF assms(1,3,2,4)]
  by (auto simp: same_transitions_def)

lemma save_loss_record_same:
  assumes "journal_lawful E" "ensure_journal_format E scope db = Inr ()" "save_loss_record E r db = Inr db'"
  shows "same_transitions E scope db db'"
proof (cases "l_supersedes (lr_request r)")
  case None
  then show ?thesis
    using assms(3) by (auto simp: save_loss_record_def save_loss_Inr same_transitions_def)
next
  case (Some s)
  then obtain m where "mark_journal_format_two E db = Inr m" "jd_scope db' = jd_scope m" "jd_head db' = jd_head m"
    "jd_history db' = jd_history m" "jd_abort db' = jd_abort m" "jd_parent db' = jd_parent m"
    using assms(3) by (auto simp: save_loss_record_def save_chain_record_Inr)
  then show ?thesis by (rule marked_same [OF assms(1,2)])
qed

lemma save_successor_Inr:
  "save_successor E u db = Inr db' \<longleftrightarrow>
     (jd_successor db = None \<or> jd_successor db = Some None)
   \<and> (\<exists>json. successor_enc E u = Some json \<and> db' = db\<lparr>jd_successor := Some (Some (row_of E json))\<rparr>)"
  by (cases "jd_successor db"; cases "the (jd_successor db)") (auto simp: save_successor_def res_simps)

lemma save_successor_replace_Inr:
  "save_successor_replace E u db = Inr db' \<longleftrightarrow>
     (\<exists>row. jd_successor db = Some (Some row))
   \<and> (\<exists>json. successor_enc E u = Some json \<and> db' = db\<lparr>jd_successor := Some (Some (row_of E json))\<rparr>)"
  by (cases "jd_successor db"; cases "the (jd_successor db)") (auto simp: save_successor_replace_def res_simps)

lemma save_successor_abort_Inr:
  "save_successor_abort E z db = Inr db' \<longleftrightarrow>
     (\<exists>json m. successor_abort_enc E z = Some json \<and> j_len E json \<le> MAX_JOURNAL_RECORD
       \<and> mark_journal_format_two E db = Inr m \<and> (jd_successor_abort m = None \<or> jd_successor_abort m = Some None)
       \<and> db' = m\<lparr>jd_successor_abort := Some (Some (row_of E json))\<rparr>)"
proof -
  have "(case jd_successor_abort m of Some (Some _) \<Rightarrow> Inl Database
         | _ \<Rightarrow> Inr (m\<lparr>jd_successor_abort := Some (Some (row_of E json))\<rparr>)) = Inr db' \<longleftrightarrow>
      (jd_successor_abort m = None \<or> jd_successor_abort m = Some None)
    \<and> db' = m\<lparr>jd_successor_abort := Some (Some (row_of E json))\<rparr>" for m json
    by (cases "jd_successor_abort m"; cases "the (jd_successor_abort m)") auto
  then show ?thesis
    by (simp add: save_successor_abort_def and_then_Inr ensure_Inr decoded_Inr MAX_JOURNAL_RECORD_def)
qed

lemma save_successor_same:
  "save_successor E u db = Inr db' \<Longrightarrow> same_transitions E scope db db'"
  "save_successor_replace E u db = Inr db' \<Longrightarrow> same_transitions E scope db db'"
  by (auto simp: save_successor_Inr save_successor_replace_Inr same_transitions_def)

lemma save_successor_abort_same:
  assumes "journal_lawful E" "ensure_journal_format E scope db = Inr ()" "save_successor_abort E z db = Inr db'"
  shows "same_transitions E scope db db'"
  using assms(3) by (auto simp: save_successor_abort_Inr intro: marked_same [OF assms(1,2)])

text \<open>The history a read gives and what it selects.\<close>

lemma read_select:
  assumes "journal_read E trust scope db = Inr h" "transition_view E trust scope n db = Some v"
  shows "\<exists>sel. read_with_revision E trust scope (Some n) db = Inr (h, sel) \<and> v = life_at n (h, sel)"
proof -
  obtain sel where sel: "read_with_revision E trust scope (Some n) db = Inr (h, sel)"
    using assms(1) by (auto simp: read_any_selection [of _ _ _ _ _ "Some n"])
  with assms(2) show ?thesis by (simp add: transition_view_def)
qed

lemma abort_at_frame [simp]:
  "abort_at (decided_history request token h) n = abort_at h n"
  "abort_at (replaced_history r h) n = abort_at h n"
  by (simp_all add: abort_at_def decided_history_def replaced_history_def)

lemma abort_at_aborted:
  "abort_at (aborted_history x h) n =
     (case abort_at h n of Some y \<Rightarrow> Some y | None \<Rightarrow> if n = a_aborted_revision (ar_abort x) then Some x else None)"
  by (auto simp: abort_at_def aborted_history_def Let_def map_add_def split: option.splits)

lemma head_not_aborted:
  assumes "read_with_revision E trust scope select db = Inr (h, sel)" "hi_head h = Some r"
  shows "abort_at h (q_revision (r_request r)) = None"
  using read_inv(5) [OF assms] by (auto simp: abort_at_def map_of_eq_None_iff)

text \<open>What is above the last revision has neither a row nor an abort.\<close>

lemma vacant_above:
  assumes "read_with_revision E trust scope (Some n) db = Inr (h, sel)"
    and "expected_revision scope (hi_consumed h) = Inr n"
  shows "sel = None" "abort_at h n = None"
proof -
  have "n \<notin> fst ` set (jd_history db) \<union> fst ` set (hi_aborts h)"
    using gapless_next(2) [OF read_inv(1) [OF assms(1)] assms(2)] by blast
  then show "sel = None" "abort_at h n = None"
    using read_inv(7) [OF assms(1)] by (auto simp: abort_at_def map_of_eq_None_iff)
qed

lemma view_decide:
  assumes "journal_lawful E" "read_with_revision E trust scope (Some n) db = Inr (h, sel)"
    and "decide_checks E policy trust scope h request token now = Inr v"
    and "save_transition E (fresh_record request token) db = Inr db'"
    and "transition_view E trust scope n db' = Some w"
  shows "advances (life_at n (h, sel)) w"
proof (cases "n = q_revision request")
  case True
  have "expected_revision scope (hi_consumed h) = Inr n"
    using assms(3) chain_revision [of scope _ _ "fresh_record request token"] True
    by (fastforce simp: decide_checks_Inr fresh_record_def)
  from vacant_above [OF assms(2) this] True decide_read [OF assms(1-4)] assms(5) show ?thesis
    by (auto simp: transition_view_def life_at_def transition_life_def fresh_record_def)
next
  case False
  then show ?thesis
    using decide_read [OF assms(1-4)] assms(5) by (auto simp: transition_view_def life_at_def)
qed

lemma view_replace:
  assumes "journal_lawful E" "read_with_revision E trust scope (Some n) db = Inr (h, sel)"
    and "hi_head h = Some r" "r_completion r = None"
    and "r_request r' = r_request r" "r_token r' = r_token r"
    and "is_none_or (r_completion r') (\<lambda>c. c \<noteq> 0 \<and> r_acknowledgements r' = (True, True))"
    and "advances (transition_life r) (transition_life r')"
    and "replace_transition E r' db = Inr db'" "transition_view E trust scope n db' = Some w"
  shows "advances (life_at n (h, sel)) w"
  using replace_read [OF assms(1-7,9)] assms(8,10) read_inv(6) [OF assms(2,3)] head_not_aborted [OF assms(2,3)]
  by (cases "n = q_revision (r_request r)") (auto simp: transition_view_def life_at_def)

lemma abort_distinct:
  assumes "journal_lawful E" "read_aborts E trust scope db = Inr aborts"
    and "\<forall>k \<in> fst ` set aborts. k < a_aborted_revision (ar_abort x)"
    and "save_abort E x db = Inr db'" "read_aborts E trust scope (db'\<lparr>jd_head := k\<rparr>) = Inr aborts'"
  shows "distinct_aborts x aborts"
proof -
  let ?k = "a_aborted_revision (ar_abort x)"
  have "\<forall>k \<in> fst ` set (abort_rows db). k < ?k"
    using assms(3) read_aborts_keys [OF assms(2)] by (metis list.set_map)
  then obtain json where json: "abort_enc E x = Some json" "abort_rows db' = abort_rows db @ [(?k, row_of E json)]"
    using assms(4)
    by (auto simp: save_abort_def tab_insert_def tab_add_last res_simps abort_rows_def [symmetric]
        split: if_splits dest!: mark_frame)
  then have "read_abort_rows E trust scope [] (abort_rows db @ [(?k, row_of E json)]) = Inr aborts'"
    using assms(5) by (simp add: read_aborts_Inr)
  moreover have "read_abort_rows E trust scope [] (abort_rows db) = Inr aborts"
    using assms(2) by (simp add: read_aborts_Inr)
  ultimately show ?thesis
    using lawful_codecs(2) [OF assms(1) json(1)]
    by (auto simp: read_abort_rows_snoc row_of_def read_abort_row_Inr)
qed

lemma expected_of_last:
  assumes "checked_add (last_of scope consumed) 1 = Some k"
  shows "expected_revision scope consumed = Inr k"
proof (cases consumed)
  case None
  then have k: "unat k = Suc (unat (js_initial_revision scope - 1))"
    using assms by (simp add: last_of_def checked_add_one)
  have "js_initial_revision scope \<noteq> 0"
  proof
    assume "js_initial_revision scope = 0"
    then show False using k unat_u64_bound [of k] by simp
  qed
  then have "unat k = unat (js_initial_revision scope)" using k by (simp add: unat_minus_one unat_gt_0 Suc_diff_1)
  with None show ?thesis by (simp add: expected_revision_Inr word_unat_eq_iff)
next
  case (Some c)
  then show ?thesis using assms by (simp add: last_of_def expected_revision_Inr checked_add_one)
qed

lemma abort_target_cases:
  assumes "abort_target E h (ar_abort x) = Inr ()" "hi_last_revision h = last_of scope (hi_consumed h)"
  obtains (decided) r where "hi_head h = Some r" "decided_abort E (ar_abort x) r = Inr ()"
    | (undecided) "undecided_abort scope x (hi_consumed h) (hi_head h) = Inr ()"
        "hi_last_revision h < a_aborted_revision (ar_abort x)"
proof (cases "is_some_and (hi_head h) (\<lambda>r. q_revision (r_request r) = a_aborted_revision (ar_abort x))")
  case True
  with assms(1) decided show thesis by (cases "hi_head h") (auto simp: abort_target_def)
next
  case False
  then have "checked_add (hi_last_revision h) 1 = Some (a_aborted_revision (ar_abort x))"
    "\<not> a_decided (ar_abort x)" "is_none_or (hi_head h) (\<lambda>r. r_completion r \<noteq> None)"
    using assms(1) by (auto simp: abort_target_def res_simps)
  then show thesis
    using expected_of_last [of scope "hi_consumed h"] assms(2)
    by (intro undecided) (simp_all add: undecided_abort_Inr checked_add_one_less)
qed

text \<open>
  An abort that leaves a readable journal is read back as the last abort, and the revision it
  aborts is the last one.
\<close>

lemma abort_reads:
  assumes lawful: "journal_lawful E" and read: "read_with_revision E trust scope select db = Inr (h, sel)"
    and x: "maintenance_abort_validate (ar_abort x) = Inr ()" "scope_binds_abort scope (ar_abort x)" "ar_format x = 2"
      "verify_abort_historical E (ar_token x) trust (ar_abort x) = Inr (ar_certificate_id x)"
      "abort_target E h (ar_abort x) = Inr ()" "len (hi_aborts h) < MAX_ABORT_ROWS"
    and save: "save_abort E x db = Inr db''"
    and after: "read_with_revision E trust scope select
      (db''\<lparr>jd_head := Some (max (hi_last_revision h) (a_aborted_revision (ar_abort x)))\<rparr>) = Inr read'"
  shows "read' = (aborted_history x h, sel)"
proof -
  let ?k = "a_aborted_revision (ar_abort x)"
  have last: "hi_last_revision h = last_of scope (hi_consumed h)" by (rule read_inv(2) [OF read])
  have above: "(\<forall>k \<in> fst ` set (hi_aborts h). k < ?k) \<and> max (hi_last_revision h) ?k = ?k"
    using x(5) last
  proof (cases rule: abort_target_cases)
    case (decided r)
    then have r: "?k = q_revision (r_request r)" "r_completion r = None" by (simp_all add: decided_abort_Inr)
    from open_head [OF read decided(1) r(2)] obtain rows st consumed where
      o: "scan_rows E trust scope select (scan_start (hi_aborts h)) rows = Inr st"
        "flush_aborts scope (\<lambda>a. a < ?k) (sn_effective st) (sn_consumed st) (sn_pending st) = Inr (consumed, [])"
        "chain scope (sn_effective st) consumed r = Inr ()"
      and h: "h = history_of scope (hi_aborts h) (scan_live r (scan_note select r (st\<lparr>sn_pending := []\<rparr>))) (Some ?k)"
      unfolding r(1) by blast
    have "hi_last_revision h = ?k" by (subst h) (simp add: history_of_def last_of_def)
    then show ?thesis using last_row_above [OF read_inv(9) [OF read] o] r(1) by auto
  next
    case undecided
    then have e: "expected_revision scope (hi_consumed h) = Inr ?k" by (simp add: undecided_abort_Inr)
    show ?thesis using gapless_next(2) [OF read_inv(1) [OF read] e] undecided(2) by (auto simp: max_def)
  qed
  have aborts: "read_aborts E trust scope db = Inr (hi_aborts h)"
    using read by (auto simp: read_with_revision_Inr history_of_def)
  obtain aborts' where "read_aborts E trust scope (db''\<lparr>jd_head := Some ?k\<rparr>) = Inr aborts'"
    using after above by (cases read') (auto simp: read_with_revision_Inr)
  then have "distinct_aborts x (hi_aborts h)"
    using abort_distinct [OF lawful aborts _ save] above by blast
  then have addable: "abort_addable E trust scope (hi_aborts h) x"
    using x by (simp add: abort_addable_def)
  from x(5) last have "read_with_revision E trust scope select (db''\<lparr>jd_head := Some ?k\<rparr>) = Inr (aborted_history x h, sel)"
  proof (cases rule: abort_target_cases)
    case (decided r)
    then show ?thesis by (rule decided_abort_read [OF lawful read addable _ _ save])
  next
    case undecided
    then show ?thesis by (intro undecided_abort_read [OF lawful read addable _ save])
  qed
  with after above show ?thesis by simp
qed

lemma view_abort:
  assumes lawful: "journal_lawful E" and read: "read_with_revision E trust scope (Some n) db = Inr (h, sel)"
    and x: "maintenance_abort_validate (ar_abort x) = Inr ()" "scope_binds_abort scope (ar_abort x)" "ar_format x = 2"
      "verify_abort_historical E (ar_token x) trust (ar_abort x) = Inr (ar_certificate_id x)"
      "abort_target E h (ar_abort x) = Inr ()" "len (hi_aborts h) < MAX_ABORT_ROWS"
    and save: "save_abort E x db = Inr db''"
    and after: "transition_view E trust scope n
      (db''\<lparr>jd_head := Some (max (hi_last_revision h) (a_aborted_revision (ar_abort x)))\<rparr>) = Some w"
  shows "advances (life_at n (h, sel)) w"
proof -
  have w: "w = life_at n (aborted_history x h, sel)"
    using after abort_reads [OF lawful read x save] by (auto simp: transition_view_def split: sum.splits)
  show ?thesis
  proof (cases "n = a_aborted_revision (ar_abort x) \<and> abort_at h n = None")
    case False
    then show ?thesis by (auto simp: w life_at_def abort_at_aborted split: option.splits)
  next
    case True
    then have w': "w = Cancelled" by (auto simp: w life_at_def abort_at_aborted)
    from x(5) read_inv(2) [OF read] show ?thesis
    proof (cases rule: abort_target_cases)
      case (decided r)
      then have "sel = Some r" "r_completion r = None"
        using read_inv(6) [OF read decided(1)] True by (simp_all add: decided_abort_Inr)
      with True show ?thesis by (simp add: w' life_at_def transition_life_def)
    next
      case undecided
      then have "sel = None"
        using vacant_above(1) [OF read] True by (simp add: undecided_abort_Inr)
      with True show ?thesis by (simp add: w' life_at_def)
    qed
  qed
qed

lemma transition_write_step:
  assumes lawful: "journal_lawful E" and "journal_write E trust scope db db'"
    and v: "transition_view E trust scope n db = Some v" and w: "transition_view E trust scope n db' = Some w"
  shows "advances v w"
  using assms(2)
proof cases
  case (write_decide h policy request token now verified)
  then show ?thesis using view_decide [OF lawful _ write_decide(3,4) w] read_select [OF write_decide(1) v] by auto
next
  case (write_acknowledge h r i)
  obtain sel where sel: "read_with_revision E trust scope (Some n) db = Inr (h, sel)" "v = life_at n (h, sel)"
    using read_select [OF write_acknowledge(1) v] by blast
  have "advances (transition_life r) (transition_life (r\<lparr>r_acknowledgements := put (r_acknowledgements r) i True\<rparr>))"
    using write_acknowledge(4) by (simp add: transition_life_def)
  then show ?thesis
    using view_replace [OF lawful sel(1) write_acknowledge(3,4) _ _ _ _ write_acknowledge(5) w] write_acknowledge(4)
    by (simp add: sel(2))
next
  case (write_complete h r c)
  obtain sel where sel: "read_with_revision E trust scope (Some n) db = Inr (h, sel)" "v = life_at n (h, sel)"
    using read_select [OF write_complete(1) v] by blast
  have "advances (transition_life r) (transition_life (r\<lparr>r_completion := Some c\<rparr>))"
    using write_complete(4-6) by (simp add: transition_life_def)
  then show ?thesis
    using view_replace [OF lawful sel(1) write_complete(3,4) _ _ _ _ write_complete(7) w] write_complete(5,6)
    by (simp add: sel(2))
next
  case (write_abort h x db'')
  obtain sel where sel: "read_with_revision E trust scope (Some n) db = Inr (h, sel)" "v = life_at n (h, sel)"
    using read_select [OF write_abort(1) v] by blast
  then show ?thesis
    using view_abort [OF lawful sel(1) write_abort(3-6,8-10)] w write_abort(11) by simp
next
  case write_loss
  have "transition_view E trust scope n db' = transition_view E trust scope n db"
    by (rule same_transitions_view, rule save_loss_record_same) (use lawful write_loss journal_read_format in auto)
  then show ?thesis using v w by simp
next
  case write_successor
  show ?thesis using v w same_transitions_view [OF save_successor_same(1) [OF write_successor(5)]] by simp
next
  case write_successor_acknowledge
  show ?thesis using v w same_transitions_view [OF save_successor_same(2) [OF write_successor_acknowledge(6)]] by simp
next
  case write_successor_complete
  show ?thesis using v w same_transitions_view [OF save_successor_same(2) [OF write_successor_complete(8)]] by simp
next
  case write_successor_abort
  show ?thesis
    using v w same_transitions_view [OF save_successor_abort_same [OF lawful write_successor_abort(1,6)]] by simp
qed

lemma transition_write_stuck:
  assumes lawful: "journal_lawful E" and "journal_write E trust scope db db'"
    and v: "transition_view E trust scope n db = None"
  shows "transition_view E trust scope n db' = None"
  using assms(2)
proof cases
  case write_successor
  show ?thesis using v same_transitions_view [OF save_successor_same(1) [OF write_successor(5)]] by simp
next
  case write_successor_acknowledge
  show ?thesis using v same_transitions_view [OF save_successor_same(2) [OF write_successor_acknowledge(6)]] by simp
next
  case write_successor_complete
  show ?thesis using v same_transitions_view [OF save_successor_same(2) [OF write_successor_complete(8)]] by simp
next
  case write_successor_abort
  show ?thesis
    using v same_transitions_view [OF save_successor_abort_same [OF lawful write_successor_abort(1,6)]] by simp
qed (use v in \<open>auto simp: transition_view_None\<close>)

interpretation tj: one_way
  "\<lambda>(E, trust, scope, n). journal_lawful E"
  "\<lambda>(E, trust, scope, n). transition_view E trust scope n"
  "\<lambda>(E, trust, scope, n). journal_exec E trust scope"
proof (unfold_locales, goal_cases)
  case (1 e d v x w)
  then show ?case
    using transition_write_step [of "fst e" "fst (snd e)" "fst (snd (snd e))" d _ "snd (snd (snd e))" v w]
      journal_exec_write [of "fst e" "fst (snd e)" "fst (snd (snd e))" x d]
    by (auto split: prod.splits)
next
  case (2 e d x)
  then show ?case
    using transition_write_stuck [of "fst e" "fst (snd e)" "fst (snd (snd e))" d _ "snd (snd (snd e))"]
      journal_exec_write [of "fst e" "fst (snd e)" "fst (snd (snd e))" x d]
    by (auto split: prod.splits)
qed

section \<open>The life of a loss successor\<close>

definition successor_life :: "LossSuccessorRecord \<Rightarrow> (LossSuccessorRequest \<times> string) life" where
  "successor_life r =
     (case sr_completion r of
        None \<Rightarrow> Open (sr_request r, sr_token r) (sr_acknowledgements r)
      | Some c \<Rightarrow> Done (sr_request r, sr_token r) c)"

definition successor_view ::
  "('j, 'x) journal_env_scheme \<Rightarrow> Trust \<Rightarrow> 'j journal_db \<Rightarrow> (LossSuccessorRequest \<times> string) life option" where
  "successor_view E trust db =
     (case read_successor_abort E trust db of
        Inl _ \<Rightarrow> None
      | Inr (Some _) \<Rightarrow> Some Cancelled
      | Inr None \<Rightarrow>
          (case read_successor E trust db of
             Inl _ \<Rightarrow> None
           | Inr None \<Rightarrow> Some Vacant
           | Inr (Some r) \<Rightarrow> Some (successor_life r)))"

lemma read_successor_Some:
  "read_successor E trust db = Inr (Some u) \<longleftrightarrow>
     (\<exists>row. jd_successor db = Some (Some row) \<and> row_intact E row \<and> successor_dec E (fst row) = Some u
        \<and> verify_loss_successor E (sr_token u) trust (sr_request u) None = Inr (sr_certificate_id u)
        \<and> is_none_or (sr_completion u) (\<lambda>c. c \<noteq> 0 \<and> sr_acknowledgements u = (True, True)))"
  by (cases "jd_successor db"; cases "the (jd_successor db)") (auto simp: read_successor_def res_simps)

lemma read_successor_written:
  assumes "journal_lawful E" "successor_enc E u = Some json" "jd_successor db = Some (Some (row_of E json))"
    and "read_successor E trust db = Inr u'"
  shows "u' = Some u"
proof -
  have "u' \<noteq> None"
    using assms(3,4) by (auto simp: read_successor_def res_simps)
  then show ?thesis
    using assms lawful_codecs(5) [OF assms(1,2)] by (auto simp: read_successor_Some row_of_def)
qed

text \<open>The writes that leave the successor's tables alone.\<close>

lemma successor_view_cong:
  assumes "jd_successor db' = jd_successor db" "jd_successor_abort db' = jd_successor_abort db"
  shows "successor_view E trust db' = successor_view E trust db"
  unfolding successor_view_def read_successor_def read_successor_abort_def assms ..

definition same_successor :: "'j journal_db \<Rightarrow> 'j journal_db \<Rightarrow> bool" where
  "same_successor db db' \<longleftrightarrow>
     jd_successor db' = jd_successor db \<and> jd_successor_abort db' = jd_successor_abort db"

lemma same_successor_saves:
  "save_transition E r db = Inr db' \<Longrightarrow> same_successor db db'"
  "replace_transition E r db = Inr db' \<Longrightarrow> same_successor db db'"
  "save_abort E x db = Inr db' \<Longrightarrow> same_successor db db'"
  "save_loss_record E l db = Inr db' \<Longrightarrow> same_successor db db'"
  by (auto simp: save_transition_def replace_transition_def save_abort_def save_loss_record_def save_loss_Inr
      save_chain_record_Inr same_successor_def res_simps case_prod_beta dest!: mark_frame split: if_splits)

lemma same_successor_view:
  "same_successor db db' \<Longrightarrow> successor_view E trust db' = successor_view E trust db"
  unfolding same_successor_def by (rule successor_view_cong) auto

lemma successor_written_life:
  assumes "journal_lawful E" "successor_enc E u = Some json"
    and "read_successor_abort E trust db = Inr None"
    and "successor_view E trust (db\<lparr>jd_successor := Some (Some (row_of E json))\<rparr>) = Some w"
  shows "w = successor_life u"
proof (cases "read_successor E trust (db\<lparr>jd_successor := Some (Some (row_of E json))\<rparr>)")
  case (Inl e)
  with assms(3,4) show ?thesis by (simp add: successor_view_def)
next
  case (Inr u')
  then have "u' = Some u" by (intro read_successor_written [OF assms(1,2)]) simp_all
  with Inr assms(3,4) show ?thesis by (simp add: successor_view_def)
qed

lemma successor_write_step:
  assumes lawful: "journal_lawful E" and "journal_write E trust scope db db'"
    and v: "successor_view E trust db = Some v" and w: "successor_view E trust db' = Some w"
  shows "advances v w"
  using assms(2)
proof cases
  case (write_decide h policy request token now verified)
  show ?thesis using v w by (simp add: same_successor_view [OF same_successor_saves(1) [OF write_decide(4)]])
next
  case (write_acknowledge h r i)
  show ?thesis using v w by (simp add: same_successor_view [OF same_successor_saves(2) [OF write_acknowledge(5)]])
next
  case (write_complete h r c)
  show ?thesis using v w by (simp add: same_successor_view [OF same_successor_saves(2) [OF write_complete(7)]])
next
  case (write_abort h x db'')
  have same: "same_successor db db'"
    using same_successor_saves(3) [OF write_abort(10)] by (simp add: write_abort(11) same_successor_def)
  show ?thesis using v w by (simp add: same_successor_view [OF same])
next
  case write_loss
  show ?thesis using v w by (simp add: same_successor_view [OF same_successor_saves(4) [OF write_loss(7)]])
next
  case (write_successor s token certificate)
  then obtain json where "successor_enc E (fresh_successor s token certificate) = Some json"
    "db' = db\<lparr>jd_successor := Some (Some (row_of E json))\<rparr>"
    by (auto simp: save_successor_Inr)
  from successor_written_life [OF lawful this(1) write_successor(3)] this(2) w write_successor(3,4) v
  show ?thesis by (auto simp: successor_view_def successor_life_def fresh_successor_def)
next
  case (write_successor_acknowledge u i)
  then obtain json where
    json: "successor_enc E (u\<lparr>sr_acknowledgements := put (sr_acknowledgements u) i True\<rparr>) = Some json"
    and db': "db' = db\<lparr>jd_successor := Some (Some (row_of E json))\<rparr>"
    by (auto simp: save_successor_replace_Inr)
  have "sr_completion u = None"
    using write_successor_acknowledge(4,5) by (cases "sr_completion u"; cases i) (auto simp: read_successor_Some)
  with successor_written_life [OF lawful json write_successor_acknowledge(3)] w v write_successor_acknowledge(3,4)
  show ?thesis by (auto simp: db' successor_view_def [of E trust db] successor_life_def)
next
  case (write_successor_complete u c)
  then obtain json where json: "successor_enc E (u\<lparr>sr_completion := Some c\<rparr>) = Some json"
    and db': "db' = db\<lparr>jd_successor := Some (Some (row_of E json))\<rparr>"
    by (auto simp: save_successor_replace_Inr)
  from successor_written_life [OF lawful json write_successor_complete(3)] w v write_successor_complete(3-7)
  show ?thesis by (auto simp: db' successor_view_def [of E trust db] successor_life_def)
next
  case (write_successor_abort u z)
  then obtain json where "jd_successor_abort db' = Some (Some (row_of E json))"
    by (auto simp: save_successor_abort_Inr)
  then have "read_successor_abort E trust db' \<noteq> Inr None"
    by (auto simp: read_successor_abort_def res_simps)
  with w have "w = Cancelled" by (auto simp: successor_view_def split: sum.splits option.splits)
  with v write_successor_abort(3-5) show ?thesis
    by (auto simp: successor_view_def successor_life_def)
qed

lemma successor_write_stuck:
  assumes "journal_write E trust scope db db'" and v: "successor_view E trust db = None"
  shows "successor_view E trust db' = None"
  using assms(1)
proof cases
  case (write_decide h policy request token now verified)
  show ?thesis using v by (simp add: same_successor_view [OF same_successor_saves(1) [OF write_decide(4)]])
next
  case (write_acknowledge h r i)
  show ?thesis using v by (simp add: same_successor_view [OF same_successor_saves(2) [OF write_acknowledge(5)]])
next
  case (write_complete h r c)
  show ?thesis using v by (simp add: same_successor_view [OF same_successor_saves(2) [OF write_complete(7)]])
next
  case (write_abort h x db'')
  have same: "same_successor db db'"
    using same_successor_saves(3) [OF write_abort(10)] by (simp add: write_abort(11) same_successor_def)
  show ?thesis using v by (simp add: same_successor_view [OF same])
next
  case write_loss
  show ?thesis using v by (simp add: same_successor_view [OF same_successor_saves(4) [OF write_loss(7)]])
qed (use v in \<open>simp_all add: successor_view_def\<close>)

interpretation sj: one_way
  "\<lambda>(E, trust, scope). journal_lawful E"
  "\<lambda>(E, trust, scope). successor_view E trust"
  "\<lambda>(E, trust, scope). journal_exec E trust scope"
proof (unfold_locales, goal_cases)
  case (1 e d v x w)
  then show ?case
    using successor_write_step [of "fst e" "fst (snd e)" "snd (snd e)" d _ v w]
      journal_exec_write [of "fst e" "fst (snd e)" "snd (snd e)" x d]
    by (auto split: prod.splits)
next
  case (2 e d x)
  then show ?case
    using successor_write_stuck [of "fst e" "fst (snd e)" "snd (snd e)" d]
      journal_exec_write [of "fst e" "fst (snd e)" "snd (snd e)" x d]
    by (auto split: prod.splits)
qed

lemma journal_run_eq:
  "tj.run (E, trust, scope, n) xs db = journal_run E trust scope xs db"
  "sj.run (E, trust, scope) xs db = journal_run E trust scope xs db"
  by (simp_all add: tj.run_def sj.run_def journal_run_def)

section \<open>What a loss closes\<close>

lemma lost_iff: "lost db \<longleftrightarrow> (\<exists>row. jd_loss db = Some (Some row))"
  by (cases "jd_loss db") (auto simp: lost_def)

lemma lost_exists: "lost db \<Longrightarrow> loss_record_exists E trust db \<noteq> Inr False"
  using read_loss_history_empty [of E trust db]
  by (auto simp: loss_record_exists_def read_loss_def last_loss_def lost_iff res_simps)

lemma read_nonempty_lost: "read_loss_history E trust db = Inr losses \<Longrightarrow> losses \<noteq> [] \<Longrightarrow> lost db"
  by (auto simp: read_loss_history_Inr lost_iff)

lemma same_losses_saves:
  "save_transition E r db = Inr db' \<Longrightarrow> jd_loss db' = jd_loss db \<and> jd_chain db' = jd_chain db \<and> jd_chain_head db' = jd_chain_head db"
  "replace_transition E r db = Inr db' \<Longrightarrow> jd_loss db' = jd_loss db \<and> jd_chain db' = jd_chain db \<and> jd_chain_head db' = jd_chain_head db"
  "save_abort E x db = Inr db' \<Longrightarrow> jd_loss db' = jd_loss db \<and> jd_chain db' = jd_chain db \<and> jd_chain_head db' = jd_chain_head db"
  "save_successor E u db = Inr db' \<Longrightarrow> jd_loss db' = jd_loss db \<and> jd_chain db' = jd_chain db \<and> jd_chain_head db' = jd_chain_head db"
  "save_successor_replace E u db = Inr db' \<Longrightarrow> jd_loss db' = jd_loss db \<and> jd_chain db' = jd_chain db \<and> jd_chain_head db' = jd_chain_head db"
  "save_successor_abort E z db = Inr db' \<Longrightarrow> jd_loss db' = jd_loss db \<and> jd_chain db' = jd_chain db \<and> jd_chain_head db' = jd_chain_head db"
  by (auto simp: save_transition_def replace_transition_def save_abort_def save_successor_Inr
      save_successor_replace_Inr save_successor_abort_Inr res_simps case_prod_beta dest!: mark_frame split: if_splits)

text \<open>Only deciding a loss writes the loss tables.\<close>

lemma write_losses:
  assumes "journal_write E trust scope db db'"
  obtains (same) "jd_loss db' = jd_loss db" "jd_chain db' = jd_chain db" "jd_chain_head db' = jd_chain_head db"
    | (loss) h r base losses policy expected where
      "journal_read E trust scope db = Inr h" "loss_base E trust scope h (lr_request r) db = Inr base"
      "read_loss_history E trust db = Inr losses"
      "loss_expected E policy trust scope base (lr_request r) losses db = Inr expected"
      "checked_add expected 1 = Some (l_revision (lr_request r))"
      "verify_loss E (lr_token r) trust (lr_request r) None = Inr (lr_certificate_id r)"
      "save_loss_record E r db = Inr db'"
  using assms by cases (use same_losses_saves in \<open>fastforce+\<close>)

lemma same_losses_read:
  "jd_loss db' = jd_loss db \<Longrightarrow> jd_chain db' = jd_chain db \<Longrightarrow> jd_chain_head db' = jd_chain_head db \<Longrightarrow>
     read_loss_history E trust db' = read_loss_history E trust db"
  by (simp only: read_loss_history_def read_chain_head_def)

lemma write_lost:
  assumes "journal_write E trust scope db db'" "lost db"
  shows "lost db'"
  using assms(1)
proof (cases rule: write_losses)
  case same
  with assms(2) show ?thesis by (simp add: lost_def)
next
  case (loss h r base losses policy expected)
  have "jd_loss db' = jd_loss db"
    using loss(7) assms(2)
    by (auto simp: save_loss_record_def save_loss_Inr save_chain_record_Inr dest!: mark_frame split: if_splits)
  with assms(2) show ?thesis by (simp add: lost_def)
qed

lemma run_lost: "lost db \<Longrightarrow> lost (journal_run E trust scope xs db)"
  using journal_run_invariant [of lost] write_lost journal_exec_write by metis

fun is_loss :: "journal_op \<Rightarrow> bool" where
  "is_loss (Decide_Loss policy l token now) = True"
| "is_loss _ = False"

lemma lost_refuses:
  assumes "lost db" "\<not> is_loss x"
  shows "\<exists>e. journal_call E trust scope x db = (Inl e, db)"
proof -
  have no: "loss_record_exists E trust db \<noteq> Inr False" using lost_exists [OF assms(1)] .
  then obtain e where "loss_record_exists E trust db = Inr True \<or> loss_record_exists E trust db = Inl e"
    by (cases "loss_record_exists E trust db") auto
  then show ?thesis
    using assms(2)
    by (cases x)
       (auto simp: accepted_def journal_decide_def journal_acknowledge_def journal_complete_def journal_abort_def
          decide_loss_successor_def acknowledge_loss_successor_def complete_loss_successor_def
          abort_loss_successor_def successor_entry_def ensure_successor_live_def transact_def and_then_def
          ensure_def ok_or_def split: sum.splits option.splits if_splits)
qed

lemma save_loss_record_lost:
  assumes "save_loss_record E r db = Inr db'" "l_supersedes (lr_request r) \<noteq> None \<Longrightarrow> lost db"
  shows "lost db'"
  using assms
  by (auto simp: save_loss_record_def save_loss_Inr save_chain_record_Inr lost_iff dest!: mark_frame split: if_splits)

lemma loss_expected_losses:
  assumes "loss_expected E policy trust scope base l losses db = Inr expected"
  shows "l_supersedes l \<noteq> None \<longleftrightarrow> losses \<noteq> []"
  using assms by (auto simp: loss_expected_def last_loss_def split: option.splits if_splits)

text \<open>After an accepted loss, new or repeated, there is a loss.\<close>

lemma decide_loss_lost:
  assumes "decide_loss E policy trust scope l token now db = (Inr c, db')"
  shows "lost db'"
proof -
  obtain losses where losses: "read_loss_history E trust db = Inr losses"
    using assms by (auto simp: decide_loss_def transact_def and_then_def ensure_def split: sum.splits if_splits)
  consider "db' = db" "is_some_and (last_loss losses) (\<lambda>old. lr_request old = l)"
    | base expected certificate where "loss_expected E policy trust scope base l losses db = Inr expected"
      "save_loss_record E (loss_record l token certificate) db = Inr db'"
    using assms losses
    by (auto simp: decide_loss_def transact_def and_then_def ensure_def ok_or_def Let_def save_loss_record_def
        loss_record_def split: sum.splits option.splits if_splits)
  then show ?thesis
  proof cases
    case 1
    then show ?thesis using read_nonempty_lost [OF losses] by (auto simp: last_loss_def split: if_splits)
  next
    case 2
    then show ?thesis
      using save_loss_record_lost [OF 2(2)] loss_expected_losses [OF 2(1)] read_nonempty_lost [OF losses]
      by (simp add: loss_record_def)
  qed
qed

section \<open>Burnt identities\<close>

text \<open>Two losses that burn different identities, and agree on what was lost and from where.\<close>

definition other_replacement :: "LossRequest \<Rightarrow> LossRequest \<Rightarrow> bool" where
  "other_replacement l l' \<longleftrightarrow>
     l_replacement_member l \<noteq> l_replacement_member l'
   \<and> l_replacement_generation l \<noteq> l_replacement_generation l'
   \<and> l_replacement_membership l \<noteq> l_replacement_membership l'"

definition same_loss :: "LossRequest \<Rightarrow> LossRequest \<Rightarrow> bool" where
  "same_loss l l' \<longleftrightarrow>
     l_lost_member l = l_lost_member l' \<and> l_lost_generation l = l_lost_generation l'
   \<and> l_membership l = l_membership l' \<and> l_survivor l = l_survivor l' \<and> l_survivor_cut l = l_survivor_cut l'
   \<and> l_source_certificate l = l_source_certificate l' \<and> l_source_cut l = l_source_cut l'
   \<and> l_abandoned_request l = l_abandoned_request l'"

definition loss_lineage :: "LossRecord list \<Rightarrow> bool" where
  "loss_lineage losses \<longleftrightarrow>
     sorted_wrt (\<lambda>a b. other_replacement (lr_request a) (lr_request b) \<and> same_loss (lr_request a) (lr_request b)) losses"

text \<open>The losses of a journal name its scope.\<close>

definition scope_binds_loss :: "JournalScope \<Rightarrow> LossRequest \<Rightarrow> bool" where
  "scope_binds_loss scope l \<longleftrightarrow>
     l_install l = js_install scope \<and> l_region l = js_region scope \<and> l_scope l = js_scope scope
   \<and> l_schema l = js_schema scope \<and> l_membership l = js_membership scope
   \<and> l_authority_id l = js_authority_id scope"

definition loss_inv :: "('j, 'x) journal_env_scheme \<Rightarrow> Trust \<Rightarrow> JournalScope \<Rightarrow> 'j journal_db \<Rightarrow> bool" where
  "loss_inv E trust scope db \<longleftrightarrow>
     (\<not> lost db \<longrightarrow> jd_chain db = None \<and> jd_chain_head db = None)
   \<and> (\<forall>losses. read_loss_history E trust db = Inr losses \<longrightarrow>
        loss_lineage losses \<and> (\<forall>r \<in> set losses. scope_binds_loss scope (lr_request r)))"

lemma loss_base_scope:
  "loss_base E trust scope h l db = Inr base \<Longrightarrow> scope_binds_loss scope l"
  by (auto simp: loss_base_def loss_from_successor_def loss_from_decided_def loss_from_completed_def Let_def
      res_simps loss_source_bound_def scope_binds_loss_def split: SourceKind.splits if_splits)

lemma same_loss_trans: "same_loss a b \<Longrightarrow> same_loss b c \<Longrightarrow> same_loss a c"
  by (auto simp: same_loss_def)

lemma supersedes_previous_Inr:
  assumes "supersedes_previous E s prev l losses retired = Inr ()"
  shows "sp_loss_certificate s = lr_certificate_id prev"
    "sp_loss_token_digest s = sha256 E (as_bytes (lr_token prev))"
    "same_loss (lr_request prev) l" "kind l = kind (lr_request prev)"
    "\<forall>r \<in> set losses. other_replacement (lr_request r) l"
    "\<not> retired_contains retired (l_replacement_member l) (l_replacement_generation l) (l_replacement_membership l)"
  using assms
  by (auto simp: supersedes_previous_def Let_def res_simps same_loss_def other_replacement_def list_all_iff)

lemma superseding_loss:
  assumes "loss_expected E policy trust scope base l losses db = Inr expected" "losses \<noteq> []"
  obtains s parent where "l_supersedes l = Some s" "read_parent E trust scope db = Inr parent"
    "supersedes_previous E s (last losses) l losses
       (case parent of None \<Rightarrow> no_identities | Some p \<Rightarrow> pa_retired p) = Inr ()"
    "expected = l_revision (lr_request (last losses))"
  using assms by (auto simp: loss_expected_def last_loss_def Let_def res_simps split: option.splits)

lemma lineage_snoc:
  assumes "loss_lineage losses" "losses \<noteq> []" "same_loss (lr_request (last losses)) (lr_request r)"
    and "\<forall>x \<in> set losses. other_replacement (lr_request x) (lr_request r)"
  shows "loss_lineage (losses @ [r])"
proof -
  have "same_loss (lr_request x) (lr_request (last losses))" if "x \<in> set losses" for x
  proof (cases "x = last losses")
    case False
    then have "x \<in> set (butlast losses)"
      using that assms(2) by (metis append_butlast_last_id in_set_conv_decomp rotate1.simps(2) set_ConsD set_rotate1)
    moreover have "loss_lineage (butlast losses @ [last losses])" using assms(1,2) by simp
    ultimately show ?thesis by (auto simp: loss_lineage_def sorted_wrt_append)
  qed (simp add: same_loss_def)
  then show ?thesis
    using assms same_loss_trans by (auto simp: loss_lineage_def sorted_wrt_append) blast
qed

lemma write_loss_inv:
  assumes lawful: "journal_lawful E" and "journal_write E trust scope db db'" and inv: "loss_inv E trust scope db"
  shows "loss_inv E trust scope db'"
  using assms(2)
proof (cases rule: write_losses)
  case same
  with inv show ?thesis by (simp add: loss_inv_def lost_def same_losses_read [OF same])
next
  case (loss h r base losses policy expected)
  show ?thesis
  proof (cases "losses = []")
    case True
    then have none: "jd_chain db = None" "jd_chain_head db = None" "l_supersedes (lr_request r) = None"
      using inv read_loss_history_empty loss(3) loss_expected_losses [OF loss(4)] by (auto simp: loss_inv_def)
    then have "save_loss E r db = Inr db'" using loss(7) by (simp add: save_loss_record_def)
    from save_loss_reads [OF lawful this none(1,2) loss(6) none(3)] this none show ?thesis
      using loss_base_scope [OF loss(2)] by (auto simp: loss_inv_def save_loss_Inr loss_lineage_def)
  next
    case False
    obtain s parent where s: "l_supersedes (lr_request r) = Some s"
      and "read_parent E trust scope db = Inr parent"
      and s': "supersedes_previous E s (last losses) (lr_request r) losses
         (case parent of None \<Rightarrow> no_identities | Some p \<Rightarrow> pa_retired p) = Inr ()"
      and e: "expected = l_revision (lr_request (last losses))"
      by (rule superseding_loss [OF loss(4) False])
    note prev = supersedes_previous_Inr [OF s']
    have "loss_link E (last losses) r"
      using s e prev(1,2) loss(5) by (simp add: loss_link_def checked_add_one)
    moreover have save: "save_chain_record E r db = Inr db'" using loss(7) s by (simp add: save_loss_record_def)
    ultimately have "read_loss_history E trust db' =
        (if len losses \<le> MAX_CHAIN_ROWS then Inr (losses @ [r]) else Inl (Refused ''loss chain row limit''))"
      using save_chain_reads [OF lawful _ loss(3) False loss(6)] by blast
    moreover have "lost db'"
      using save_loss_record_lost [OF loss(7)] read_nonempty_lost [OF loss(3) False] by simp
    moreover have "loss_lineage (losses @ [r])"
      using lineage_snoc [OF _ False prev(3,5)] inv loss(3) by (simp add: loss_inv_def)
    ultimately show ?thesis using inv loss(3) loss_base_scope [OF loss(2)] by (auto simp: loss_inv_def)
  qed
qed

lemma run_loss_inv:
  "journal_lawful E \<Longrightarrow> loss_inv E trust scope db \<Longrightarrow> loss_inv E trust scope (journal_run E trust scope xs db)"
  using journal_run_invariant [of "loss_inv E trust scope"] write_loss_inv journal_exec_write by metis

section \<open>The successor's parent\<close>

lemma write_parent:
  assumes "journal_write E trust scope db db'"
  shows "jd_parent db' = jd_parent db"
  using assms
  by cases
     (auto simp: save_transition_def replace_transition_def save_abort_def save_successor_Inr
      save_successor_replace_Inr save_successor_abort_Inr save_loss_record_def save_loss_Inr save_chain_record_Inr
      res_simps case_prod_beta dest!: mark_frame split: if_splits)

lemma run_parent: "jd_parent (journal_run E trust scope xs db) = jd_parent db"
  using journal_run_invariant [of "\<lambda>d. jd_parent d = jd_parent db"] write_parent journal_exec_write by metis

lemma run_read_parent:
  "read_parent E trust scope (journal_run E trust scope xs db) = read_parent E trust scope db"
  by (simp add: read_parent_def run_parent)

lemma set_retired_push [simp]:
  "set (rt_members (retired_push m g s retired)) = insert m (set (rt_members retired))"
  "set (rt_generations (retired_push m g s retired)) = insert g (set (rt_generations retired))"
  "set (rt_memberships (retired_push m g s retired)) = insert s (set (rt_memberships retired))"
  by (auto simp: retired_push_def Let_def)

lemma set_retire_losses:
  "set (rt_members (retire_losses retired losses)) =
     set (rt_members retired) \<union> (l_replacement_member \<circ> lr_request) ` set (butlast losses)"
  "set (rt_generations (retire_losses retired losses)) =
     set (rt_generations retired) \<union> (l_replacement_generation \<circ> lr_request) ` set (butlast losses)"
  "set (rt_memberships (retire_losses retired losses)) =
     set (rt_memberships retired) \<union> (l_replacement_membership \<circ> lr_request) ` set (butlast losses)"
  by (induction retired losses rule: retire_losses.induct) auto

lemma retired_identities_contain:
  assumes "retired_identities E trust scope db = Inr retired" "read_loss_history E trust db = Inr losses"
    and "losses \<noteq> []" "\<not> retired_contains retired member generation membership"
  shows "member \<noteq> l_lost_member (lr_request (hd losses))" "generation \<noteq> l_lost_generation (lr_request (hd losses))"
    "membership \<noteq> l_membership (lr_request (hd losses))"
    "\<forall>r \<in> set (butlast losses). member \<noteq> l_replacement_member (lr_request r)
       \<and> generation \<noteq> l_replacement_generation (lr_request r) \<and> membership \<noteq> l_replacement_membership (lr_request r)"
    "read_parent E trust scope db = Inr (Some parent) \<Longrightarrow>
       \<not> retired_contains (pa_retired parent) member generation membership"
proof -
  obtain first rest where losses: "losses = first # rest" using assms(3) by (cases losses) auto
  obtain p where p: "read_parent E trust scope db = Inr p"
    and retired: "retired = retire_losses (retired_push (l_lost_member (lr_request first))
      (l_lost_generation (lr_request first)) (l_membership (lr_request first))
      (case p of None \<Rightarrow> no_identities | Some p \<Rightarrow> pa_retired p)) losses"
    using assms(1,2) by (auto simp: retired_identities_def res_simps losses Let_def)
  show "member \<noteq> l_lost_member (lr_request (hd losses))" "generation \<noteq> l_lost_generation (lr_request (hd losses))"
    "membership \<noteq> l_membership (lr_request (hd losses))"
    "\<forall>r \<in> set (butlast losses). member \<noteq> l_replacement_member (lr_request r)
       \<and> generation \<noteq> l_replacement_generation (lr_request r) \<and> membership \<noteq> l_replacement_membership (lr_request r)"
    using assms(4)
    by (auto simp: retired losses retired_contains_def set_retire_losses)
  show "\<not> retired_contains (pa_retired parent) member generation membership"
    if "read_parent E trust scope db = Inr (Some parent)"
    using assms(4) that p
    by (auto simp: retired retired_contains_def set_retire_losses)
qed


section \<open>Founding a successor\<close>

lemma fetch_loss_Inr:
  "fetch_loss E policy trust scope db = Inr c \<longleftrightarrow>
     (\<exists>losses. ensure_journal_format E scope db = Inr () \<and> read_loss_history E trust db = Inr losses \<and> losses \<noteq> []
        \<and> lp_continuity_and_fencing policy 0 scope (lr_request (last losses)) = Inr ()
        \<and> committed_loss E trust (last losses) = Inr c)"
  by (auto simp: fetch_loss_def read_loss_def last_loss_def res_simps split: if_splits)

lemma committed_loss_Inr:
  "committed_loss E trust r = Inr c \<longleftrightarrow>
     verify_loss E (lr_token r) trust (lr_request r) None = Inr (cl_certificate_id c)
   \<and> cl_request c = lr_request r \<and> cl_token c = lr_token r \<and> cl_token_digest c = sha256 E (as_bytes (lr_token r))"
  by (cases c) (auto simp: committed_loss_def res_simps)

lemma successor_scope_bound_Inr:
  "successor_scope_bound scope l = Inr u \<longleftrightarrow>
     js_install scope = l_install l \<and> js_region scope = l_region l \<and> js_scope scope = l_scope l
   \<and> js_schema scope = l_schema l \<and> js_membership scope = l_replacement_membership l
   \<and> js_source_anchor scope = l_source_cut l \<and> js_authority_id scope = l_authority_id l
   \<and> unat (js_initial_revision scope) = Suc (unat (l_revision l))"
  by (auto simp: successor_scope_bound_def res_simps checked_add_one)

lemma journal_open_Inr:
  "journal_open E is_file opened passphrase scope trust = Inr db \<longleftrightarrow>
     journal_scope_validate scope = Inr () \<and> is_file \<and> passphrase \<noteq> [] \<and> opened = Inr db
   \<and> (\<exists>h. journal_read E trust scope db = Inr h)"
  by (auto simp: journal_open_def res_simps)

text \<open>A founding that succeeds either checked the parent in the file or has just written it.\<close>

lemma found_file_Inr:
  assumes "found_file E trust passphrase scope expected token_digest unchanged file = Inr (Inr db, w)"
  shows "resume_checks E trust scope expected token_digest db = Inr ()
    \<or> (\<exists>objects baseline. w = Some db
       \<and> initialize_pristine_successor E scope expected objects baseline = Inr db)"
proof (cases "file")
  case (Absent created)
  with assms show ?thesis by (auto simp: found_file_def Let_def res_simps)
next
  case (Present is_file opened)
  then show ?thesis
  proof (cases "journal_open E is_file (and_then opened (\<lambda>(db, _). Inr db)) passphrase scope trust")
    case (Inr db')
    with assms Present show ?thesis by (auto simp: found_file_def Let_def res_simps)
  next
    case (Inl e)
    with assms Present show ?thesis by (auto simp: found_file_def Let_def res_simps journal_open_Inr)
  qed
qed

lemma create_loss_successor_Inr:
  assumes "create_loss_successor E policy trust passphrase scope source_scope s1 s2 s3 file = (Inr db, w)"
  obtains loss retired where
    "journal_scope_validate scope = Inr ()"
    "fetch_loss E policy trust source_scope s1 = Inr loss" "successor_scope_bound scope (cl_request loss) = Inr ()"
    "js_profile scope = tr_profile trust" "js_profile source_scope = tr_profile trust"
    "retired_identities E trust source_scope s2 = Inr retired"
    "resume_checks E trust scope (expected_parent source_scope loss retired) (cl_token_digest loss) db = Inr ()
     \<or> (\<exists>objects baseline. w = Some db
        \<and> initialize_pristine_successor E scope (expected_parent source_scope loss retired) objects baseline = Inr db)"
proof -
  obtain loss retired unchanged where c: "journal_scope_validate scope = Inr ()"
    "fetch_loss E policy trust source_scope s1 = Inr loss" "successor_scope_bound scope (cl_request loss) = Inr ()"
    "js_profile scope = tr_profile trust" "js_profile source_scope = tr_profile trust"
    "retired_identities E trust source_scope s2 = Inr retired"
    "found_file E trust passphrase scope (expected_parent source_scope loss retired) (cl_token_digest loss)
       unchanged file = Inr (Inr db, w)"
    using assms
    by (auto simp: create_loss_successor_def transact_def and_then_def ensure_def split: sum.splits if_splits)
  from that [OF c(1-6) found_file_Inr [OF c(7)]] show thesis .
qed

end
