(* ===== verification/Transition_Contracts.thy ===== *)
theory Transition_Contracts
  imports Transition_Runs
begin

text \<open>
  What the transition journal and its loss successors promise, over every run: the properties of
  \<open>Transition_Journal\<close>, \<open>Transition_Loss\<close> and \<open>Transition_Runs\<close>, each with a witness on a small
  concrete journal.
\<close>

section \<open>Lemmas\<close>



lemma pristine_parent:
  assumes "journal_lawful E"
    and "initialize_pristine_successor E scope parent objects baseline = Inr db"
    and "verify_loss E (lr_token (pa_loss parent)) trust (lr_request (pa_loss parent)) None
      = Inr (lr_certificate_id (pa_loss parent))"
    and "js_membership scope = l_replacement_membership (lr_request (pa_loss parent))"
  shows "read_parent E trust scope db = Inr (Some parent)"
proof -
  obtain json where json: "parent_enc E parent = Some json" "j_len E json \<le> MAX_JOURNAL_RECORD"
    "jd_parent db = Some (Some (row_of E json))"
    using assms(2) by (auto simp: initialize_pristine_successor_def res_simps MAX_JOURNAL_RECORD_def)
  then show ?thesis
    using assms(3,4) lawful_codecs(4) [OF assms(1) json(1)] row_intact_row_of [OF json(2)]
    by (simp add: read_parent_def decode_parent_row_def row_of_def)
qed

lemma resume_checks_Inr:
  "resume_checks E trust scope expected d db = Inr u \<longleftrightarrow>
     (\<exists>h. journal_read E trust scope db = Inr h \<and> hi_head h = None) \<and> read_successor E trust db = Inr None
   \<and> read_parent E trust scope db = Inr (Some expected) \<and> sha256 E (as_bytes (lr_token (pa_loss expected))) = d"
  by (auto simp: resume_checks_def res_simps)

lemma read_chain_rows_verified:
  "read_chain_rows E trust [first] rows = Inr losses \<Longrightarrow> r \<in> set losses \<Longrightarrow> r = first
     \<or> verify_loss E (lr_token r) trust (lr_request r) None = Inr (lr_certificate_id r)"
proof (induction rows arbitrary: losses rule: rev_induct)
  case (snoc entry rows)
  obtain n row where entry: "entry = (n, row)" by (cases entry)
  obtain old where old: "read_chain_rows E trust [first] rows = Inr old"
    "read_chain_rows E trust old [(n, row)] = Inr losses"
    using snoc.prems(1) by (auto simp: entry read_chain_rows_append and_then_Inr simp del: read_chain_rows.simps)
  then obtain r' where "decode_loss_row E trust row = Inr r'" "losses = old @ [r']"
    using read_chain_rows_inv [OF old(1)] by (auto simp: read_chain_rows_one simp del: read_chain_rows.simps)
  with snoc.IH [OF old(1)] snoc.prems(2) show ?case by (auto simp: decode_loss_row_Inr)
qed auto

lemma read_losses_verified:
  assumes "read_loss_history E trust db = Inr losses" "r \<in> set losses"
  shows "verify_loss E (lr_token r) trust (lr_request r) None = Inr (lr_certificate_id r)"
proof -
  have "losses \<noteq> []" using assms(2) by auto
  then obtain row first where "decode_loss_row E trust row = Inr first"
    "read_chain_rows E trust [first] (chain_rows db) = Inr losses"
    using assms(1) by (auto simp: read_loss_history_Inr)
  with read_chain_rows_verified [OF this(2) assms(2)] show ?thesis by (auto simp: decode_loss_row_Inr)
qed

text \<open>However the successor was founded, its parent row is the loss and the identities it burnt.\<close>

lemma founded_parent:
  assumes lawful: "journal_lawful E"
    and create: "create_loss_successor E policy trust passphrase scope source_scope s1 s2 s3 file = (Inr db, w)"
  obtains loss losses retired where
    "fetch_loss E policy trust source_scope s1 = Inr loss"
    "cl_request loss = lr_request (last losses)" "cl_token loss = lr_token (last losses)"
    "read_loss_history E trust s1 = Inr losses" "losses \<noteq> []"
    "successor_scope_bound scope (lr_request (last losses)) = Inr ()"
    "js_profile scope = tr_profile trust" "js_profile source_scope = tr_profile trust"
    "retired_identities E trust source_scope s2 = Inr retired"
    "verify_loss E (lr_token (last losses)) trust (lr_request (last losses)) None = Inr (lr_certificate_id (last losses))"
    "read_parent E trust scope db = Inr (Some \<lparr>pa_source_scope = source_scope, pa_loss = last losses, pa_retired = retired\<rparr>)"
    "(\<exists>h. journal_read E trust scope db = Inr h \<and> hi_head h = None) \<or>
     (\<exists>objects baseline. initialize_pristine_successor E scope
        \<lparr>pa_source_scope = source_scope, pa_loss = last losses, pa_retired = retired\<rparr> objects baseline = Inr db)"
proof -
  obtain loss retired where "journal_scope_validate scope = Inr ()" and c: "fetch_loss E policy trust source_scope s1 = Inr loss"
    "successor_scope_bound scope (cl_request loss) = Inr ()"
    "js_profile scope = tr_profile trust" "js_profile source_scope = tr_profile trust"
    "retired_identities E trust source_scope s2 = Inr retired"
    and d: "resume_checks E trust scope (expected_parent source_scope loss retired) (cl_token_digest loss) db = Inr ()
     \<or> (\<exists>objects baseline. w = Some db
        \<and> initialize_pristine_successor E scope (expected_parent source_scope loss retired) objects baseline = Inr db)"
    by (rule create_loss_successor_Inr [OF create])
  obtain losses where l: "read_loss_history E trust s1 = Inr losses" "losses \<noteq> []"
    "committed_loss E trust (last losses) = Inr loss"
    using c(1) by (auto simp: fetch_loss_Inr)
  let ?parent = "\<lparr>pa_source_scope = source_scope, pa_loss = last losses, pa_retired = retired\<rparr>"
  have v: "verify_loss E (lr_token (last losses)) trust (lr_request (last losses)) None
      = Inr (lr_certificate_id (last losses))"
    using read_losses_verified [OF l(1)] l(2) by simp
  then have parent: "expected_parent source_scope loss retired = ?parent" "cl_request loss = lr_request (last losses)"
    "cl_token loss = lr_token (last losses)"
    using l(3) by (auto simp: expected_parent_def committed_loss_Inr)
  have "read_parent E trust scope db = Inr (Some ?parent)"
    using d
  proof
    assume "\<exists>objects baseline. w = Some db
        \<and> initialize_pristine_successor E scope (expected_parent source_scope loss retired) objects baseline = Inr db"
    then obtain objects baseline where "initialize_pristine_successor E scope ?parent objects baseline = Inr db"
      by (auto simp: parent)
    from pristine_parent [OF lawful this] v c(2) show ?thesis by (simp add: parent(2) successor_scope_bound_Inr)
  qed (simp add: parent resume_checks_Inr)
  moreover have "(\<exists>h. journal_read E trust scope db = Inr h \<and> hi_head h = None) \<or>
     (\<exists>objects baseline. initialize_pristine_successor E scope ?parent objects baseline = Inr db)"
    using d by (auto simp: parent resume_checks_Inr)
  ultimately show thesis
    using c(2) by (intro that [OF c(1) parent(2,3) l(1,2) _ c(3-5) v]) (simp_all only: parent(2))
qed

lemma aborted_decide_refused:
  assumes "transition_view E trust scope n db = Some Cancelled \<or> transition_view E trust scope n db = None"
    and "q_revision request = n"
  shows "\<exists>e. journal_decide E policy trust scope request token now db = (Inl e, db)"
proof (cases "journal_read E trust scope db")
  case (Inl e)
  then show ?thesis
    by (auto simp: journal_decide_def transact_def and_then_def ensure_def split: sum.splits)
next
  case (Inr h)
  then obtain sel where read: "read_with_revision E trust scope (Some n) db = Inr (h, sel)"
    by (auto simp: read_any_selection [of _ _ _ _ _ "Some n"])
  have "transition_life r \<noteq> Cancelled" for r by (simp add: transition_life_def split: option.splits)
  then have a: "abort_at h n \<noteq> None"
    using assms(1) read by (auto simp: transition_view_def life_at_def split: option.splits if_splits)
  then have "\<not> is_some_and (hi_head h) (\<lambda>r. r_request r = request)"
    using head_not_aborted [OF read] assms(2) by (cases "hi_head h") auto
  with a Inr assms(2) show ?thesis
    by (auto simp: journal_decide_def decide_checks_def transact_def and_then_def ensure_def split: sum.splits)
qed

lemma read_aborts_last:
  assumes "read_aborts E trust scope db = Inr (aborts @ [(k, x)])"
  shows "distinct_aborts x aborts"
proof -
  have rows: "read_abort_rows E trust scope [] (abort_rows db) = Inr (aborts @ [(k, x)])"
    using assms by (simp add: read_aborts_Inr)
  then have "abort_rows db \<noteq> []" by auto
  then obtain before entry where "abort_rows db = before @ [entry]" by (metis append_butlast_last_id)
  with rows show ?thesis by (auto simp: read_abort_rows_snoc)
qed

text \<open>A first abort, if the journal still reads after it.\<close>

lemma first_abort_reads:
  assumes lawful: "journal_lawful E" and abort: "journal_abort E policy trust scope abort token now db = (Inr c, db')"
    and new: "db' \<noteq> db" and after: "journal_read E trust scope db' = Inr h'"
  obtains h x where "journal_read E trust scope db = Inr h" "h' = aborted_history x h" "ar_abort x = abort"
    "abort_at h (a_aborted_revision abort) = None" "distinct_aborts x (hi_aborts h)"
proof -
  let ?n = "a_aborted_revision abort"
  obtain h certificate db'' where h: "journal_read E trust scope db = Inr h" "maintenance_abort_validate abort = Inr ()"
    "scope_binds_abort scope abort" "abort_target E h abort = Inr ()" "len (hi_aborts h) < MAX_ABORT_ROWS"
    "verify_abort_issuance E token trust abort now = Inr certificate" "abort_at h ?n = None"
    and db'': "save_abort E \<lparr>ar_format = 2, ar_abort = abort, ar_token = token, ar_certificate_id = certificate\<rparr> db
      = Inr db''" "db' = db''\<lparr>jd_head := Some (max (hi_last_revision h) ?n)\<rparr>"
    using journal_abort_effect [OF abort] new by (auto simp: Let_def)
  let ?x = "\<lparr>ar_format = 2, ar_abort = abort, ar_token = token, ar_certificate_id = certificate\<rparr>"
  obtain sel where read: "read_with_revision E trust scope None db = Inr (h, sel)"
    using h(1) by (auto simp: read_any_selection [of _ _ _ _ _ None])
  obtain sel' where read': "read_with_revision E trust scope None db' = Inr (h', sel')"
    using after by (auto simp: read_any_selection [of _ _ _ _ _ None])
  have h': "h' = aborted_history ?x h"
    using abort_reads [OF lawful read, of ?x db'' "(h', sel')"] h db'' read'
      verify_abort_issuance_historical [OF h(6)] by simp
  have "read_aborts E trust scope db' = Inr (hi_aborts h')"
    using read' by (auto simp: read_with_revision_Inr history_of_def)
  then have "read_aborts E trust scope db' = Inr (hi_aborts h @ [(?n, ?x)])"
    by (simp add: h' aborted_history_def Let_def)
  from that [OF h(1) h' _ h(7) read_aborts_last [OF this]] show thesis by simp
qed

text \<open>The completed record below an open head has the same nodes at the same places.\<close>

lemma completed_below_open:
  assumes "journal_read E trust scope db = Inr h" "hi_head h = Some r" "r_completion r = None"
    and "hi_completed h = Some p"
  shows "same_node (fst (q_participants (r_request r))) (fst (q_participants (r_request p)))
    \<and> same_node (snd (q_participants (r_request r))) (snd (q_participants (r_request p)))"
proof -
  obtain sel where read: "read_with_revision E trust scope None db = Inr (h, sel)"
    using assms(1) by (auto simp: read_any_selection [of _ _ _ _ _ None])
  obtain rows st consumed where o: "scan_rows E trust scope None (scan_start (hi_aborts h)) rows = Inr st"
    "chain scope (sn_effective st) consumed r = Inr ()"
    and h: "h = history_of scope (hi_aborts h) (scan_live r (scan_note None r (st\<lparr>sn_pending := []\<rparr>)))
      (Some (q_revision (r_request r)))"
    using open_head [OF read assms(2,3)] by blast
  have "sn_completed st = Some p"
    using assms(3,4) arg_cong [OF h, of hi_completed]
    by (simp add: history_of_def scan_live_def scan_note_def)
  moreover have "scan_inv scope None (hi_aborts h) rows st"
    by (rule scan_rows_inv [OF read_inv(9) [OF read] o(1)])
  ultimately have "sn_effective st = Some p"
    using chain_completed [OF o(2)] by (cases "sn_effective st") (auto simp: scan_inv_def)
  with o(2) show ?thesis by (auto simp: chain_def Let_def res_simps)
qed

lemma fresh_loss_inv: "\<not> lost db \<Longrightarrow> jd_chain db = None \<Longrightarrow> jd_chain_head db = None \<Longrightarrow> loss_inv E trust scope db"
  by (auto simp: loss_inv_def lost_def read_loss_history_def read_chain_head_def Let_def res_simps loss_lineage_def
      split: option.splits)


text \<open>A journal in which no loss was ever decided.\<close>

definition lossless :: "'j journal_db \<Rightarrow> bool" where
  "lossless db \<longleftrightarrow> jd_loss db = None \<and> jd_chain db = None \<and> jd_chain_head db = None"

lemma created_lossless: "journal_create E path_exists created passphrase scope = Inr db \<Longrightarrow> lossless db"
  by (auto simp: journal_create_def lossless_def res_simps)

lemma lossless_run_inv:
  assumes "journal_lawful E" "lossless db"
  shows "loss_inv E trust scope (journal_run E trust scope xs db)"
  using assms by (intro run_loss_inv fresh_loss_inv) (auto simp: lossless_def lost_def)

lemma successor_hooks_default:
  "\<exists>e. successor_hooks (default_hooks continuity prepared) n scope parent s = Inl e"
  by (auto simp: successor_hooks_def default_hooks_def and_then_def split: sum.splits)






section \<open>A concrete journal\<close>

text \<open>JSON texts are the documents themselves; a text is a hundred bytes long, whatever it says.\<close>

datatype journal_doc =
    ScopeDoc JournalScope
  | MarkedScopeDoc JournalScope
  | RecordDoc TransitionRecord
  | AbortDoc AbortRecord
  | LossDoc LossRecord
  | ParentDoc SuccessorParent
  | SuccessorDoc LossSuccessorRecord
  | SuccessorAbortDoc SuccessorAbortRecord

definition sample_journal_env :: "journal_doc journal_env" where
  "sample_journal_env = token_env.extend sample_token_env (journal_env.fields
     (\<lambda>_. 100) (\<lambda>_. 100) (\<lambda>_. [])
     (\<lambda>s. Some (ScopeDoc s))
     (\<lambda>j. case j of ScopeDoc s \<Rightarrow> Some (Some (None, Some s)) | MarkedScopeDoc s \<Rightarrow> Some (Some (Some (Some 2), Some s))
        | _ \<Rightarrow> None)
     (\<lambda>j. case j of ScopeDoc s \<Rightarrow> Some (MarkedScopeDoc s) | _ \<Rightarrow> None)
     (\<lambda>r. Some (RecordDoc r)) (\<lambda>j. case j of RecordDoc r \<Rightarrow> Some r | _ \<Rightarrow> None)
     (\<lambda>r. Some (AbortDoc r)) (\<lambda>j. case j of AbortDoc r \<Rightarrow> Some r | _ \<Rightarrow> None)
     (\<lambda>r. Some (LossDoc r)) (\<lambda>j. case j of LossDoc r \<Rightarrow> Some r | _ \<Rightarrow> None)
     (\<lambda>r. Some (ParentDoc r)) (\<lambda>j. case j of ParentDoc r \<Rightarrow> Some r | _ \<Rightarrow> None)
     (\<lambda>r. Some (SuccessorDoc r)) (\<lambda>j. case j of SuccessorDoc r \<Rightarrow> Some r | _ \<Rightarrow> None)
     (\<lambda>r. Some (SuccessorAbortDoc r)) (\<lambda>j. case j of SuccessorAbortDoc r \<Rightarrow> Some r | _ \<Rightarrow> None))"

lemma sample_journal_lawful: "journal_lawful sample_journal_env"
  by (auto simp: journal_lawful_def sample_journal_env_def token_env.defs journal_env.defs split: journal_doc.splits)

definition sample_journal_scope :: JournalScope where
  "sample_journal_scope =
     \<lparr>js_install = ''inst'', js_region = ''eu'', js_profile = tr_profile sample_trust, js_scope = 6, js_schema = 7,
      js_membership = 8, js_source_anchor = \<lparr>k_sequence = 0, k_digest = 9\<rparr>, js_authority_id = 5,
      js_initial_revision = 1\<rparr>"

definition sample_journal :: "journal_doc journal_db" where
  "sample_journal =
     \<lparr>jd_scope = Some (ScopeDoc sample_journal_scope), jd_head = Some 0, jd_history = [], jd_abort = None,
      jd_parent = None, jd_loss = None, jd_chain = None, jd_chain_head = None, jd_successor = None,
      jd_successor_abort = None\<rparr>"

definition sample_hooks :: TransitionPolicy where
  "sample_hooks =
     \<lparr>tp_continuity = (\<lambda>_ _ _. Inr ()), tp_prepared = (\<lambda>_ _ _. Inr ()), tp_applied = (\<lambda>_ _ _. Inr ()),
      tp_historical_completion = (\<lambda>_ _ _. Inr ()), tp_abort_applicable = (\<lambda>_ _. Inr ())\<rparr>"

definition sample_decide :: "u8 \<Rightarrow> u8 \<Rightarrow> journal_op" where
  "sample_decide n base =
     Decide sample_hooks (sample_transition n base)
       (sample_compact ''T'' [char_of (unat n), char_of (unat base)]) 150"

definition sample_committed :: "u8 \<Rightarrow> u8 \<Rightarrow> CommittedTransition" where
  "sample_committed n base =
     (let token = sample_compact ''T'' [char_of (unat n), char_of (unat base)] in
      \<lparr>ct_request = sample_transition n base, ct_token = token, ct_token_digest = sample_hash (as_bytes token),
       ct_certificate_id = sample_hash [n, base] + 5, ct_acknowledgements = (False, False), ct_completion = None\<rparr>)"

definition sample_transition_ops :: "u8 \<Rightarrow> u8 \<Rightarrow> journal_op list" where
  "sample_transition_ops n base =
     [sample_decide n base,
      Acknowledge sample_hooks (sample_committed n base) (fst (q_participants (sample_transition n base))),
      Acknowledge sample_hooks (sample_committed n base) (snd (q_participants (sample_transition n base))),
      Complete sample_hooks (sample_committed n base) 77]"

definition sample_row :: "TransitionRecord \<Rightarrow> u64 \<times> journal_doc row" where
  "sample_row r = (q_revision (r_request r), RecordDoc r, 1)"

definition sample_record :: "u8 \<Rightarrow> u8 \<Rightarrow> bool \<times> bool \<Rightarrow> Id option \<Rightarrow> TransitionRecord" where
  "sample_record n base acks c =
     \<lparr>r_request = sample_transition n base, r_token = sample_compact ''T'' [char_of (unat n), char_of (unat base)],
      r_acknowledgements = acks, r_completion = c\<rparr>"

definition sample_completed_journal :: "journal_doc journal_db" where
  "sample_completed_journal = sample_journal\<lparr>jd_head := Some 1,
     jd_history := [sample_row (sample_record 49 48 (True, True) (Some 77))]\<rparr>"

definition sample_open_journal :: "journal_doc journal_db" where
  "sample_open_journal = sample_journal\<lparr>jd_head := Some 2,
     jd_history := [sample_row (sample_record 49 48 (True, True) (Some 77)),
                    sample_row (sample_record 50 49 (False, False) None)]\<rparr>"

definition sample_acknowledged_journal :: "journal_doc journal_db" where
  "sample_acknowledged_journal = sample_journal\<lparr>jd_head := Some 1,
     jd_history := [sample_row (sample_record 49 48 (True, True) None)]\<rparr>"

definition sample_abort_record :: "u8 \<Rightarrow> u8 \<Rightarrow> AbortRecord" where
  "sample_abort_record n request =
     \<lparr>ar_format = 2, ar_abort = sample_abort n request 48,
      ar_token = sample_compact ''A'' [char_of (unat n), char_of (unat request), CHR ''0''],
      ar_certificate_id = sample_hash [n, request, 48] + 5\<rparr>"

definition sample_aborted_journal :: "journal_doc journal_db" where
  "sample_aborted_journal = sample_completed_journal\<lparr>jd_scope := Some (MarkedScopeDoc sample_journal_scope),
     jd_head := Some 2, jd_abort := Some [(2, AbortDoc (sample_abort_record 50 53), 1)]\<rparr>"

definition sample_aborted_history :: History where
  "sample_aborted_history =
     \<lparr>hi_head = Some (sample_record 49 48 (True, True) (Some 77)),
      hi_completed = Some (sample_record 49 48 (True, True) (Some 77)), hi_ids = [149],
      hi_aborts = [(2, sample_abort_record 50 53)], hi_consumed = Some 2, hi_last_revision = 2\<rparr>"

definition sample_loss_hooks :: LossPolicy where
  "sample_loss_hooks =
     \<lparr>lp_continuity_and_fencing = (\<lambda>_ _ _. Inr ()), lp_survivor_prepared = (\<lambda>_ _. Inr ()),
      lp_maintenance_rollback_authorized = (\<lambda>_ _ _. Inr ()),
      lp_maintenance_finish_forward_authorized = (\<lambda>_ _ _. Inr ()),
      lp_loss_successor_applied = (\<lambda>_ _ _ _. Inr ()), lp_loss_successor_continuity = (\<lambda>_ _ _. Inr ()),
      lp_successor_abort_authorized = (\<lambda>_ _ _ _. Inr ()), lp_superseded_successor_aborted = (\<lambda>_ _ _. Inr ())\<rparr>"

definition sample_loss_record :: "u8 \<Rightarrow> u8 \<Rightarrow> bytes \<Rightarrow> LossRecord" where
  "sample_loss_record n k prev =
     \<lparr>lr_request = sample_loss n k prev,
      lr_token = sample_compact ''L'' (map (\<lambda>x. char_of (unat x)) (n # k # prev)),
      lr_certificate_id = sample_hash (n # k # prev) + 5\<rparr>"

definition sample_decide_loss :: "u8 \<Rightarrow> u8 \<Rightarrow> bytes \<Rightarrow> journal_op" where
  "sample_decide_loss n k prev =
     Decide_Loss sample_loss_hooks (sample_loss n k prev) (lr_token (sample_loss_record n k prev)) 150"

definition sample_lost_journal :: "journal_doc journal_db" where
  "sample_lost_journal = sample_completed_journal\<lparr>jd_loss := Some (Some (LossDoc (sample_loss_record 50 51 []), 1))\<rparr>"

definition sample_superseded_journal :: "journal_doc journal_db" where
  "sample_superseded_journal = sample_lost_journal\<lparr>jd_scope := Some (MarkedScopeDoc sample_journal_scope),
     jd_chain := Some [(3, LossDoc (sample_loss_record 51 52 [50, 51]), 1)], jd_chain_head := Some (Some (3, 1))\<rparr>"

definition sample_successor_scope :: JournalScope where
  "sample_successor_scope = sample_journal_scope\<lparr>js_membership := 111, js_source_anchor := sample_checkpoint 49,
     js_initial_revision := 3\<rparr>"

definition sample_parent :: SuccessorParent where
  "sample_parent = \<lparr>pa_source_scope = sample_journal_scope, pa_loss = sample_loss_record 50 51 [],
     pa_retired = \<lparr>rt_members = [22], rt_generations = [32], rt_memberships = [8]\<rparr>\<rparr>"

definition sample_founded_journal :: "journal_doc journal_db" where
  "sample_founded_journal = sample_journal\<lparr>jd_scope := Some (ScopeDoc sample_successor_scope), jd_head := Some 2,
     jd_parent := Some (Some (ParentDoc sample_parent, 1))\<rparr>"

definition sample_successor_record :: "bool \<times> bool \<Rightarrow> Id option \<Rightarrow> LossSuccessorRecord" where
  "sample_successor_record acks c =
     \<lparr>sr_request = sample_successor 50 51, sr_token = sample_compact ''S'' ''23'',
      sr_certificate_id = sample_hash [50, 51] + 5, sr_acknowledgements = acks, sr_completion = c\<rparr>"

definition sample_successor_journal :: "bool \<times> bool \<Rightarrow> Id option \<Rightarrow> journal_doc journal_db" where
  "sample_successor_journal acks c =
     sample_founded_journal\<lparr>jd_successor := Some (Some (SuccessorDoc (sample_successor_record acks c), 1))\<rparr>"

definition sample_committed_successor :: CommittedLossSuccessorTransition where
  "sample_committed_successor =
     \<lparr>cs_request = sample_successor 50 51, cs_token = sample_compact ''S'' ''23'',
      cs_token_digest = sample_hash (as_bytes (sample_compact ''S'' ''23'')),
      cs_certificate_id = sample_hash [50, 51] + 5, cs_source_scope = sample_journal_scope,
      cs_loss_request = sample_loss 50 51 [],
      cs_loss_token_digest = sample_hash (as_bytes (sample_compact ''L'' ''23'')),
      cs_loss_certificate_id = sample_hash [50, 51] + 5, cs_acknowledgements = (False, False)\<rparr>"

section \<open>Evaluations\<close>

lemma sample_chars [simp]: "char_of (49 :: nat) = CHR ''1''" "char_of (50 :: nat) = CHR ''2''" "char_of (51 :: nat) = CHR ''3''"
  by code_simp+

lemma sample_journals_differ:
  "sample_open_journal \<noteq> sample_completed_journal" "sample_aborted_journal \<noteq> sample_completed_journal"
  by (rule notI, drule arg_cong [of _ _ jd_head],
      simp add: sample_open_journal_def sample_aborted_journal_def sample_completed_journal_def)+

lemma sample_decided:
  "journal_decide sample_journal_env sample_hooks sample_trust sample_journal_scope (sample_transition 50 49)
     (sample_compact ''T'' ''21'') 150 sample_completed_journal = (Inr (sample_committed 50 49), sample_open_journal)"
  by code_simp

lemma sample_aborted:
  "journal_abort sample_journal_env sample_hooks sample_trust sample_journal_scope (sample_abort 50 53 48)
     (sample_compact ''A'' ''250'') 150 sample_completed_journal
   = (Inr \<lparr>ca_abort = sample_abort 50 53 48, ca_token = sample_compact ''A'' ''250'',
           ca_token_digest = sample_digest ''A'' ''250'', ca_certificate_id = sample_hash [50, 53, 48] + 5\<rparr>,
      sample_aborted_journal)"
  by code_simp

lemma sample_aborted_reads:
  "journal_read sample_journal_env sample_trust sample_journal_scope sample_aborted_journal = Inr sample_aborted_history"
  by code_simp

definition sample_committed_loss :: CommittedLoss where
  "sample_committed_loss =
     \<lparr>cl_request = sample_loss 50 51 [], cl_token = sample_compact ''L'' ''23'',
      cl_certificate_id = sample_hash [50, 51] + 5, cl_token_digest = sample_digest ''L'' ''23''\<rparr>"

lemma sample_lost:
  "decide_loss sample_journal_env sample_loss_hooks sample_trust sample_journal_scope (sample_loss 50 51 [])
     (sample_compact ''L'' ''23'') 150 sample_completed_journal = (Inr sample_committed_loss, sample_lost_journal)"
  by code_simp

lemma sample_founded:
  "create_loss_successor sample_journal_env sample_loss_hooks sample_trust ''p'' sample_successor_scope
     sample_journal_scope sample_lost_journal sample_lost_journal sample_lost_journal
     (Absent (Inr ([(''table'', ''vesta_schema'')], (1, 1))))
   = (Inr sample_founded_journal, Some sample_founded_journal)"
  by code_simp

lemma sample_lost_run:
  "journal_run sample_journal_env sample_trust sample_journal_scope [sample_decide_loss 50 51 []] sample_completed_journal
   = sample_lost_journal"
  using sample_lost by (simp add: journal_exec_def sample_decide_loss_def sample_loss_record_def)

section \<open>Properties\<close>

text \<open>
  C13. Revisions are consumed without gaps. In a journal that reads, the revisions that have a row or an
  abort are exactly those from the scope's initial one to the last one, which is the stored head;
  the effective head has a row, was not aborted, and is a verified record of this scope.
\<close>

theorem revisions_are_gapless:
  assumes "journal_scope_validate scope = Inr ()" "journal_read E trust scope db = Inr h"
  shows "fst ` set (jd_history db) \<union> fst ` set (hi_aborts h)
      = {k. js_initial_revision scope \<le> k \<and> k \<le> hi_last_revision h}
    \<and> jd_head db = Some (hi_last_revision h)
    \<and> (\<forall>r. hi_head h = Some r \<longrightarrow> record_valid E trust scope r
         \<and> q_revision (r_request r) \<in> fst ` set (jd_history db) - fst ` set (hi_aborts h))"
proof -
  obtain sel where read: "read_with_revision E trust scope None db = Inr (h, sel)"
    using assms(2) by (auto simp: read_any_selection [of _ _ _ _ _ None])
  have "js_initial_revision scope \<noteq> 0"
    using assms(1) by (auto simp: journal_scope_validate_def split: if_splits)
  then have "js_initial_revision scope - 1 < js_initial_revision scope"
    by (simp add: word_less_nat_alt unat_minus_one unat_gt_0)
  then have "fst ` set (jd_history db) \<union> fst ` set (hi_aborts h)
      = {k. js_initial_revision scope \<le> k \<and> k \<le> hi_last_revision h}"
    using read_inv(1,2) [OF read]
    by (auto simp: gapless_def last_of_def split: option.splits)
  moreover have "jd_head db = Some (hi_last_revision h)"
    using read by (auto simp: read_with_revision_Inr history_of_def)
  ultimately show ?thesis
    using read_inv(5) [OF read] journal_read_valid [OF assms(2)] by blast
qed

theorem revisions_are_gapless_witness:
  "fst ` set (jd_history sample_aborted_journal) \<union> fst ` set (hi_aborts sample_aborted_history)
     = {k. 1 \<le> k \<and> k \<le> 2}"
proof -
  have "journal_scope_validate sample_journal_scope = Inr ()" by code_simp
  from revisions_are_gapless [OF this sample_aborted_reads] show ?thesis
    by (simp add: sample_journal_scope_def sample_aborted_history_def)
qed

text \<open>
  C14. A first decision extends the history by one revision. If \<open>decide\<close> succeeds and writes, the journal
  reads afterwards as before plus this open request at the next revision; the head before it was
  complete and its target is the base both participants start from; the identifier was never used,
  not even by an aborted request; the token is a live certificate of the request; and the policy
  confirmed that both participants are prepared.
\<close>

theorem decide_extends_history:
  assumes "journal_lawful E"
    and "journal_decide E policy trust scope request token now db = (Inr c, db')" "db' \<noteq> db"
  shows "\<exists>h. journal_read E trust scope db = Inr h
    \<and> journal_read E trust scope db' = Inr (decided_history request token h)
    \<and> q_revision request = (if hi_consumed h = None then js_initial_revision scope else hi_last_revision h + 1)
    \<and> (\<forall>p. hi_head h = Some p \<longrightarrow> r_completion p \<noteq> None
         \<and> pt_old_base (fst (q_participants request)) = Some (pt_target (fst (q_participants (r_request p))))
         \<and> pt_old_base (snd (q_participants request)) = Some (pt_target (fst (q_participants (r_request p)))))
    \<and> q_id request \<notin> set (hi_ids h) \<and> \<not> aborted_request_id h (q_id request)
    \<and> (\<exists>v. verify_issuance E token trust request now = Inr v)
    \<and> tp_prepared policy scope request (fst (q_participants request)) = Inr ()
    \<and> tp_prepared policy scope request (snd (q_participants request)) = Inr ()"
proof -
  obtain h v where h: "journal_read E trust scope db = Inr h"
    "decide_checks E policy trust scope h request token now = Inr v"
    "save_transition E (fresh_record request token) db = Inr db'"
    using journal_decide_effect [OF assms(2)] assms(3) by blast
  obtain sel where read: "read_with_revision E trust scope None db = Inr (h, sel)"
    using h(1) by (auto simp: read_any_selection [of _ _ _ _ _ None])
  have "journal_read E trust scope db' = Inr (decided_history request token h)"
    using decide_read [OF assms(1) read h(2,3)] by (auto simp: read_any_selection [of _ _ _ _ _ None])
  moreover have ch: "chain scope (hi_head h) (hi_consumed h) (fresh_record request token) = Inr ()"
    using h(2) by (simp add: decide_checks_Inr)
  moreover have "q_revision request = (if hi_consumed h = None then js_initial_revision scope else hi_last_revision h + 1)"
    using chain_revision [OF ch] read_inv(2) [OF read]
    by (auto simp: expected_revision_def fresh_record_def last_of_def checked_add_def res_simps
        split: option.splits if_splits)
  moreover have "\<forall>p. hi_head h = Some p \<longrightarrow> r_completion p \<noteq> None
         \<and> pt_old_base (fst (q_participants request)) = Some (pt_target (fst (q_participants (r_request p))))
         \<and> pt_old_base (snd (q_participants request)) = Some (pt_target (fst (q_participants (r_request p))))"
    using ch by (auto simp: chain_def fresh_record_def Let_def res_simps)
  ultimately show ?thesis using h by (auto simp: decide_checks_Inr)
qed

theorem decide_extends_history_witness:
  "\<exists>h. journal_read sample_journal_env sample_trust sample_journal_scope sample_open_journal
     = Inr (decided_history (sample_transition 50 49) (sample_compact ''T'' ''21'') h)"
proof -
  from decide_extends_history [OF sample_journal_lawful sample_decided sample_journals_differ(1)] show ?thesis by blast
qed

text \<open>
  C15. The transition at a revision follows the one-way contract in every run. Whatever operations of the
  journal follow, in any order and under any hooks: an open transition keeps its request, its token
  and its acknowledgements, a completed one stays exactly as it is, and an aborted one stays aborted.
\<close>

theorem transition_outcome_is_final:
  assumes "journal_lawful E" "transition_view E trust scope n db = Some v"
    and "transition_view E trust scope n (journal_run E trust scope xs db) = Some w"
  shows "within v w"
  using tj.run_within [of "(E, trust, scope, n)" db v xs w] assms by (simp add: journal_run_eq)

theorem transition_outcome_is_final_witness:
  "within (Done (sample_transition 49 48, sample_compact ''T'' ''10'') 77)
     (the (transition_view sample_journal_env sample_trust sample_journal_scope 1
       (journal_run sample_journal_env sample_trust sample_journal_scope [sample_decide 50 49] sample_completed_journal)))"
proof -
  have run: "journal_run sample_journal_env sample_trust sample_journal_scope [sample_decide 50 49] sample_completed_journal
      = sample_open_journal"
    using sample_decided by (simp add: journal_exec_def sample_decide_def)
  have v: "transition_view sample_journal_env sample_trust sample_journal_scope 1 sample_completed_journal
      = Some (Done (sample_transition 49 48, sample_compact ''T'' ''10'') 77)" by code_simp
  have w: "transition_view sample_journal_env sample_trust sample_journal_scope 1 sample_open_journal
      = Some (Done (sample_transition 49 48, sample_compact ''T'' ''10'') 77)" by code_simp
  from transition_outcome_is_final [OF sample_journal_lawful v, of "[sample_decide 50 49]"] w show ?thesis
    unfolding run by simp
qed

text \<open>
  C16. A completion rests on both acknowledgements. If a transition that was not complete is complete
  after a run, then at some point of that run it was open with both participants' acknowledgements,
  for this very request and token, and the completion is not zero.
\<close>

theorem completed_transition_was_acknowledged:
  assumes "journal_lawful E" "transition_view E trust scope n db = Some v" "\<forall>c. v \<noteq> Done k c"
    and "transition_view E trust scope n (journal_run E trust scope xs db) = Some (Done k c)"
  shows "\<exists>ys zs. xs = ys @ zs
    \<and> transition_view E trust scope n (journal_run E trust scope ys db) = Some (Open k (True, True)) \<and> c \<noteq> 0"
  using tj.completed_was_acknowledged [of "(E, trust, scope, n)" db v k xs c] assms
  by (simp add: journal_run_eq)

theorem completed_transition_was_acknowledged_witness:
  "\<exists>ys zs. [Complete sample_hooks (sample_committed 49 48) 77] = ys @ zs
     \<and> transition_view sample_journal_env sample_trust sample_journal_scope 1
         (journal_run sample_journal_env sample_trust sample_journal_scope ys sample_acknowledged_journal)
       = Some (Open (sample_transition 49 48, sample_compact ''T'' ''10'') (True, True))"
proof -
  have v: "transition_view sample_journal_env sample_trust sample_journal_scope 1 sample_acknowledged_journal
      = Some (Open (sample_transition 49 48, sample_compact ''T'' ''10'') (True, True))" by code_simp
  have "journal_complete sample_journal_env sample_hooks sample_trust sample_journal_scope (sample_committed 49 48) 77
      sample_acknowledged_journal = (Inr (), sample_completed_journal)" by code_simp
  then have run: "journal_run sample_journal_env sample_trust sample_journal_scope
      [Complete sample_hooks (sample_committed 49 48) 77] sample_acknowledged_journal = sample_completed_journal"
    by (simp add: journal_exec_def)
  have "transition_view sample_journal_env sample_trust sample_journal_scope 1 sample_completed_journal
      = Some (Done (sample_transition 49 48, sample_compact ''T'' ''10'') 77)" by code_simp
  from completed_transition_was_acknowledged [OF sample_journal_lawful v _ this [folded run]] show ?thesis by auto
qed



text \<open>
  C18. An abort is permanent. If a first \<open>abort\<close> succeeds and the journal still reads, the head is again
  the last completed transition (or is unchanged, if nothing had been decided), the aborted revision
  is the last one and reads as cancelled, and in no later state of the journal does any decision for
  that revision succeed.
\<close>

theorem abort_consumes_revision:
  assumes "journal_lawful E" "journal_abort E policy trust scope abort token now db = (Inr c, db')" "db' \<noteq> db"
    and "journal_read E trust scope db' = Inr h'"
  shows "(\<exists>h. journal_read E trust scope db = Inr h \<and> hi_completed h' = hi_completed h
      \<and> hi_head h' = (if a_decided abort then hi_completed h else hi_head h)
      \<and> hi_last_revision h' = a_aborted_revision abort)
    \<and> transition_view E trust scope (a_aborted_revision abort) db' = Some Cancelled
    \<and> (\<forall>xs policy request token now. q_revision request = a_aborted_revision abort \<longrightarrow>
         (\<exists>e. journal_decide E policy trust scope request token now (journal_run E trust scope xs db')
            = (Inl e, journal_run E trust scope xs db')))"
proof -
  let ?n = "a_aborted_revision abort"
  obtain h x where h: "journal_read E trust scope db = Inr h" "h' = aborted_history x h" "ar_abort x = abort"
    "abort_at h ?n = None" "distinct_aborts x (hi_aborts h)"
    by (rule first_abort_reads [OF assms])
  obtain sel' where read': "read_with_revision E trust scope (Some ?n) db' = Inr (h', sel')"
    using assms(4) by (auto simp: read_any_selection [of _ _ _ _ _ "Some ?n"])
  then have c: "transition_view E trust scope ?n db' = Some Cancelled"
    using h by (simp add: transition_view_def life_at_def abort_at_aborted)
  have "transition_view E trust scope ?n (journal_run E trust scope xs db') = Some Cancelled
    \<or> transition_view E trust scope ?n (journal_run E trust scope xs db') = None" for xs
    using tj.cancelled_is_final [of "(E, trust, scope, ?n)" db' xs] c assms(1)
    by (cases "transition_view E trust scope ?n (journal_run E trust scope xs db')") (auto simp: journal_run_eq)
  then have "\<exists>e. journal_decide E policy trust scope request token now (journal_run E trust scope xs db')
      = (Inl e, journal_run E trust scope xs db')" if "q_revision request = ?n" for xs policy request token now
    using aborted_decide_refused that by metis
  with c h show ?thesis by (auto simp: aborted_history_def Let_def)
qed

theorem abort_consumes_revision_witness:
  "transition_view sample_journal_env sample_trust sample_journal_scope 2 sample_aborted_journal = Some Cancelled
   \<and> (\<exists>e. journal_decide sample_journal_env sample_hooks sample_trust sample_journal_scope (sample_transition 50 49)
        (sample_compact ''T'' ''21'') 150 sample_aborted_journal = (Inl e, sample_aborted_journal))"
proof -
  note c = abort_consumes_revision [OF sample_journal_lawful sample_aborted sample_journals_differ(2)
    sample_aborted_reads]
  have "a_aborted_revision (sample_abort 50 53 48) = 2" "q_revision (sample_transition 50 49) = 2" by code_simp+
  then show ?thesis using c by (metis journal_run_simps(1))
qed

text \<open>
  C19. Aborting the same request twice locks the journal. \<open>abort\<close> accepts a second abort, of another
  revision, for a request identifier that an earlier abort already names, since it does not compare
  with the stored aborts; reading does compare and refuses. After that, whatever is called, the
  journal never reads again.
\<close>

theorem repeated_abort_locks_journal:
  assumes "journal_lawful E" "journal_read E trust scope db = Inr h"
    and "journal_abort E policy trust scope abort token now db = (Inr c, db')" "db' \<noteq> db"
    and "(k, old) \<in> set (hi_aborts h)" "a_aborted_request_id (ar_abort old) = a_aborted_request_id abort"
  shows "journal_read E trust scope (journal_run E trust scope xs db') \<noteq> Inr h'"
proof -
  have "journal_read E trust scope db' \<noteq> Inr h''" for h''
  proof
    assume "journal_read E trust scope db' = Inr h''"
    then obtain x where "ar_abort x = abort" "distinct_aborts x (hi_aborts h)"
      using first_abort_reads [OF assms(1,3,4)] assms(2) by (metis sum.inject(2))
    then show False using assms(5,6) by (fastforce simp: distinct_aborts_def list_all_iff)
  qed
  then have "transition_view E trust scope 0 db' = None" by (simp add: transition_view_None)
  then have "transition_view E trust scope 0 (journal_run E trust scope xs db') = None"
    using tj.stuck_run [of "(E, trust, scope, 0)" db' xs] assms(1) by (simp add: journal_run_eq)
  then show ?thesis by (simp add: transition_view_None)
qed

theorem repeated_abort_locks_journal_witness:
  "\<exists>c db'. journal_abort sample_journal_env sample_hooks sample_trust sample_journal_scope (sample_abort 51 53 48)
       (sample_compact ''A'' ''350'') 150 sample_aborted_journal = (Inr c, db')
     \<and> journal_read sample_journal_env sample_trust sample_journal_scope
         (journal_run sample_journal_env sample_trust sample_journal_scope [sample_decide 50 49] db')
       \<noteq> Inr sample_aborted_history"
proof -
  let ?db = "sample_aborted_journal\<lparr>jd_head := Some 3,
    jd_abort := Some [(2, AbortDoc (sample_abort_record 50 53), 1), (3, AbortDoc (sample_abort_record 51 53), 1)]\<rparr>"
  let ?c = "\<lparr>ca_abort = sample_abort 51 53 48, ca_token = sample_compact ''A'' ''350'',
           ca_token_digest = sample_digest ''A'' ''350'', ca_certificate_id = sample_hash [51, 53, 48] + 5\<rparr>"
  have a: "journal_abort sample_journal_env sample_hooks sample_trust sample_journal_scope (sample_abort 51 53 48)
       (sample_compact ''A'' ''350'') 150 sample_aborted_journal = (Inr ?c, ?db)" by code_simp
  have "?db \<noteq> sample_aborted_journal"
    by (rule notI, drule arg_cong [of _ _ jd_head]) (simp add: sample_aborted_journal_def)
  moreover have "(2, sample_abort_record 50 53) \<in> set (hi_aborts sample_aborted_history)"
    by (simp add: sample_aborted_history_def)
  moreover have "a_aborted_request_id (ar_abort (sample_abort_record 50 53))
      = a_aborted_request_id (sample_abort 51 53 48)" by code_simp
  ultimately show ?thesis
    using repeated_abort_locks_journal [OF sample_journal_lawful sample_aborted_reads a] a by blast
qed

text \<open>
  C20. The admission evidence is sound. \<open>fetch_completed\<close> answers only for the effective head of a
  journal that reads: the request asked for, bound to this scope, verified under the stored token,
  acknowledged by both participants, with the completion that is returned, in a journal without a
  participant loss, while the policy confirms continuity.
\<close>

theorem fetch_completed_sound:
  assumes "fetch_completed E policy trust scope request db = Inr c"
  shows "\<exists>h r. journal_read E trust scope db = Inr h \<and> hi_head h = Some r
    \<and> r_request r = request \<and> r_acknowledgements r = (True, True) \<and> r_completion r = Some (co_completion c)
    \<and> co_completion c \<noteq> 0 \<and> scope_binds_request scope request
    \<and> (\<exists>v. verify_historical E (r_token r) trust request = Inr v
         \<and> vh_token_digest v = ct_token_digest (co_committed c)
         \<and> vh_certificate_id v = ct_certificate_id (co_committed c))
    \<and> loss_record_exists E trust db = Inr False \<and> tp_continuity policy 0 scope request = Inr ()"
proof -
  obtain h r v where h: "journal_read E trust scope db = Inr h" "hi_head h = Some r" "r_request r = request"
    "loss_record_exists E trust db = Inr False" "tp_continuity policy 0 scope request = Inr ()"
    "verify_historical E (r_token r) trust request = Inr v"
    and c: "r_acknowledgements r = (True, True)" "r_completion r = Some (co_completion c)"
      "ct_token_digest (co_committed c) = vh_token_digest v"
      "ct_certificate_id (co_committed c) = vh_certificate_id v"
    using assms by (auto simp: fetch_completed_def journal_fetch_def committed_def res_simps)
  have "record_valid E trust scope r" by (rule journal_read_valid [OF h(1,2)])
  with h c show ?thesis by (cases v) (auto simp: record_valid_def)
qed

theorem fetch_completed_sound_witness:
  "\<exists>h r. journal_read sample_journal_env sample_trust sample_journal_scope sample_completed_journal = Inr h
     \<and> hi_head h = Some r \<and> r_acknowledgements r = (True, True) \<and> r_completion r = Some 77"
proof -
  have "fetch_completed sample_journal_env sample_hooks sample_trust sample_journal_scope (sample_transition 49 48)
      sample_completed_journal
    = Inr \<lparr>co_committed = (sample_committed 49 48)\<lparr>ct_acknowledgements := (True, True), ct_completion := Some 77\<rparr>,
           co_completion = 77\<rparr>" by code_simp
  from fetch_completed_sound [OF this] show ?thesis by auto
qed

text \<open>
  C21. A participant loss closes the journal for good. Once \<open>decide_loss\<close> has succeeded, every other
  operation that writes (deciding, acknowledging, completing and aborting a transition or a successor)
  is refused and changes nothing, after any further operations; only losses can still be decided.
\<close>

theorem loss_closes_journal:
  assumes "decide_loss E policy trust scope l token now db = (Inr c, db')" "\<not> is_loss x"
  shows "\<exists>e. journal_call E trust scope x (journal_run E trust scope xs db')
    = (Inl e, journal_run E trust scope xs db')"
  using lost_refuses [OF run_lost [OF decide_loss_lost [OF assms(1)]] assms(2)] .

theorem loss_closes_journal_witness:
  "\<exists>e. journal_call sample_journal_env sample_trust sample_journal_scope (sample_decide 50 49)
     (journal_run sample_journal_env sample_trust sample_journal_scope [sample_decide_loss 51 52 [50, 51]]
        sample_lost_journal)
   = (Inl e, journal_run sample_journal_env sample_trust sample_journal_scope [sample_decide_loss 51 52 [50, 51]]
        sample_lost_journal)"
proof -
  have "\<not> is_loss (sample_decide 50 49)" by (simp add: sample_decide_def)
  then show ?thesis by (rule loss_closes_journal [OF sample_lost])
qed

text \<open>
  C22. A lost participant is either rolled back or finished forward, never both. In a journal that reads,
  if the loss of a participant can be anchored to the last completed transition, abandoning an open
  one if there is one, then the loss of the same participant cannot be anchored to an open decided
  transition.
\<close>

theorem loss_branches_exclusive:
  assumes "journal_read E trust scope db = Inr h"
    and "l_lost_member l = l_lost_member l'" "l_lost_generation l = l_lost_generation l'"
    and "loss_from_completed E trust scope h l = Inr base"
  shows "loss_from_decided E trust scope h l' \<noteq> Inr base'"
proof
  assume "loss_from_decided E trust scope h l' = Inr base'"
  then obtain r i where r: "hi_head h = Some r" "r_completion r = None"
    "position (is_lost l') (q_participants (r_request r)) = Some i"
    "at (r_acknowledgements r) (other i)"
    by (auto simp: loss_from_decided_def res_simps)
  then obtain p j where p: "hi_completed h = Some p" "position (is_lost l) (q_participants (r_request p)) = Some j"
    "\<not> at (r_acknowledgements r) (other j)"
    using assms(4) by (auto simp: loss_from_completed_def Let_def res_simps)
  have "is_lost l' (fst (q_participants (r_request r))) = is_lost l (fst (q_participants (r_request p)))"
    "is_lost l' (snd (q_participants (r_request r))) = is_lost l (snd (q_participants (r_request p)))"
    using completed_below_open [OF assms(1) r(1,2) p(1)] assms(2,3) by (auto simp: is_lost_def same_node_def)
  then have "i = j" using r(3) p(2) by (simp add: position_def split: if_splits)
  with r(4) p(3) show False by simp
qed

theorem loss_branches_exclusive_witness:
  "loss_from_decided sample_journal_env sample_trust sample_journal_scope
     (decided_history (sample_transition 50 49) (sample_compact ''T'' ''21'')
        (sample_aborted_history\<lparr>hi_aborts := [], hi_consumed := Some 1, hi_last_revision := 1\<rparr>))
     ((sample_loss 51 51 [])\<lparr>l_abandoned_request := Some (sample_hash [150, 2])\<rparr>) \<noteq> Inr 2"
proof -
  let ?h = "decided_history (sample_transition 50 49) (sample_compact ''T'' ''21'')
    (sample_aborted_history\<lparr>hi_aborts := [], hi_consumed := Some 1, hi_last_revision := 1\<rparr>)"
  let ?l = "(sample_loss 51 51 [])\<lparr>l_abandoned_request := Some (sample_hash [150, 2])\<rparr>"
  have h: "journal_read sample_journal_env sample_trust sample_journal_scope sample_open_journal = Inr ?h"
    by code_simp
  have "loss_from_completed sample_journal_env sample_trust sample_journal_scope ?h ?l = Inr 2"
    by code_simp
  from loss_branches_exclusive [OF h refl refl this] show ?thesis .
qed

text \<open>
  C23. A superseded replacement never comes back. In every run of a journal that started without losses,
  the losses that it reads each name the one before and take the next revision; any two of them
  name different replacement members, generations and memberships, and agree on who was lost, who
  survives and from what source; all are bound to the journal's scope.
\<close>

theorem replacements_never_reused:
  assumes "journal_lawful E" "lossless db"
    and "read_loss_history E trust (journal_run E trust scope xs db) = Inr losses"
  shows "sorted_wrt (\<lambda>a b. other_replacement (lr_request a) (lr_request b) \<and> same_loss (lr_request a) (lr_request b)) losses
    \<and> (\<forall>r \<in> set losses. scope_binds_loss scope (lr_request r))
    \<and> successively (loss_link E) losses"
proof -
  have "loss_inv E trust scope (journal_run E trust scope xs db)"
    by (rule lossless_run_inv [OF assms(1,2)])
  moreover have "successively (loss_link E) losses"
    using assms(3) by (cases "losses = []") (auto simp: read_loss_history_Inr dest: read_chain_rows_inv)
  ultimately show ?thesis using assms(3) by (auto simp: loss_inv_def loss_lineage_def)
qed

theorem replacements_never_reused_witness:
  "sorted_wrt (\<lambda>a b. other_replacement (lr_request a) (lr_request b) \<and> same_loss (lr_request a) (lr_request b))
     [sample_loss_record 50 51 [], sample_loss_record 51 52 [50, 51]]"
proof -
  have "snd (decide_loss sample_journal_env sample_loss_hooks sample_trust sample_journal_scope (sample_loss 51 52 [50, 51])
      (sample_compact ''L'' ''3423'') 150 sample_lost_journal) = sample_superseded_journal" by code_simp
  moreover have "lr_token (sample_loss_record 51 52 [50, 51]) = sample_compact ''L'' ''3423''" by code_simp
  ultimately have run: "journal_run sample_journal_env sample_trust sample_journal_scope
      [sample_decide_loss 50 51 [], sample_decide_loss 51 52 [50, 51]] sample_completed_journal = sample_superseded_journal"
    using sample_lost_run by (simp add: journal_exec_def sample_decide_loss_def)
  have "read_loss_history sample_journal_env sample_trust sample_superseded_journal
      = Inr [sample_loss_record 50 51 [], sample_loss_record 51 52 [50, 51]]" by code_simp
  moreover have "lossless sample_completed_journal"
    by (simp add: lossless_def sample_completed_journal_def sample_journal_def)
  ultimately show ?thesis
    using replacements_never_reused [OF sample_journal_lawful, of sample_completed_journal sample_trust
        sample_journal_scope "[sample_decide_loss 50 51 [], sample_decide_loss 51 52 [50, 51]]"] run by simp
qed

text \<open>
  C24. Burnt identities are refused in the next generation. In a journal founded by a loss, after any
  operations, a successor is accepted only if its replacement is neither the lost participant nor a
  replacement that a superseded loss of the source journal had named, by member, generation and
  membership.
\<close>

theorem retired_identities_refused:
  assumes "journal_lawful E"
    and "create_loss_successor E policy trust passphrase scope source_scope source1 source2 source3 file = (Inr db, w)"
    and "read_loss_history E trust source2 = Inr losses" "losses \<noteq> []"
    and "decide_loss_successor E policy' trust scope s token now (journal_run E trust scope xs db) = (Inr c, db')"
    and "successor_replacement s = Inr p"
  shows "pt_member p \<noteq> l_lost_member (lr_request (hd losses))
    \<and> pt_generation p \<noteq> l_lost_generation (lr_request (hd losses))
    \<and> s_membership s \<noteq> l_membership (lr_request (hd losses))
    \<and> (\<forall>r \<in> set (butlast losses). pt_member p \<noteq> l_replacement_member (lr_request r)
         \<and> pt_generation p \<noteq> l_replacement_generation (lr_request r)
         \<and> s_membership s \<noteq> l_replacement_membership (lr_request r))"
proof -
  obtain retired where retired: "retired_identities E trust source_scope source2 = Inr retired"
    and parent: "\<exists>parent. read_parent E trust scope db = Inr (Some parent) \<and> pa_retired parent = retired"
    by (rule founded_parent [OF assms(1,2)]) auto
  have "\<not> retired_contains retired (pt_member p) (pt_generation p) (s_membership s)"
    using assms(5,6) parent run_read_parent [of E trust scope xs db]
    by (auto simp: decide_loss_successor_def transact_def and_then_def ensure_def ok_or_def
        split: sum.splits if_splits)
  from retired_identities_contain(1-4) [OF retired assms(3,4) this] show ?thesis by blast
qed

theorem retired_identities_refused_witness:
  "\<exists>p. successor_replacement (sample_successor 50 51) = Inr p \<and> pt_member p \<noteq> 22 \<and> pt_generation p \<noteq> 32"
proof -
  let ?p = "snd (s_participants (sample_successor 50 51))"
  have p: "successor_replacement (sample_successor 50 51) = Inr ?p" by code_simp
  have l: "read_loss_history sample_journal_env sample_trust sample_lost_journal = Inr [sample_loss_record 50 51 []]"
    by code_simp
  have "decide_loss_successor sample_journal_env sample_loss_hooks sample_trust sample_successor_scope
      (sample_successor 50 51) (sample_compact ''S'' ''23'') 150
      (journal_run sample_journal_env sample_trust sample_successor_scope [] sample_founded_journal)
    = (Inr sample_committed_successor, sample_successor_journal (False, False) None)" by code_simp
  from retired_identities_refused [OF sample_journal_lawful sample_founded l _ this p] p show ?thesis
    by (simp add: sample_loss_record_def sample_loss_def)
qed







text \<open>
  C28. An integrator who implements no optional hook gets no optional power. With the default hooks, no
  successor is decided, acknowledged or completed, no successor abort is written, and no loss that
  abandons a transition or supersedes another loss is written.
\<close>

theorem default_hooks_refuse:
  assumes "policy = default_hooks continuity prepared"
  shows "(\<exists>e. decide_loss_successor E policy trust scope s token now db = (Inl e, db))
    \<and> (\<exists>e. acknowledge_loss_successor E policy trust scope decision member db = (Inl e, db))
    \<and> (\<exists>e. complete_loss_successor E policy trust scope decision completion db = (Inl e, db))
    \<and> snd (abort_loss_successor E policy trust scope x token now db) = db
    \<and> (kind l \<noteq> LossSuccessor \<and> l_abandoned_request l \<noteq> None \<or> l_supersedes l \<noteq> None \<longrightarrow>
         snd (decide_loss E policy trust scope l token now db) = db)"
proof (intro conjI impI)
  have hooks: "\<exists>e. successor_hooks policy n scope parent s = Inl e" for n scope parent s
    using successor_hooks_default assms by blast
  have no: "successor_hooks policy n scope parent s \<noteq> Inr u" for n scope parent s u
    using hooks [of n scope parent s] by auto
  show "\<exists>e. decide_loss_successor E policy trust scope s token now db = (Inl e, db)"
    using no by (auto simp: decide_loss_successor_def transact_def and_then_def ensure_def ok_or_def
        split: sum.splits option.splits if_splits)
  show "\<exists>e. acknowledge_loss_successor E policy trust scope decision member db = (Inl e, db)"
    by (auto simp: assms default_hooks_def acknowledge_loss_successor_def transact_def and_then_def ensure_def
        ok_or_def Let_def split: sum.splits option.splits if_splits)
  show "\<exists>e. complete_loss_successor E policy trust scope decision completion db = (Inl e, db)"
    using no by (auto simp: complete_loss_successor_def transact_def and_then_def ensure_def
        split: sum.splits option.splits if_splits)
  show "snd (abort_loss_successor E policy trust scope x token now db) = db"
    using abort_loss_successor_effect [OF surjective_pairing, of E policy trust scope x token now db]
    by (auto simp: assms default_hooks_def)
  assume "kind l \<noteq> LossSuccessor \<and> l_abandoned_request l \<noteq> None \<or> l_supersedes l \<noteq> None"
  then show "snd (decide_loss E policy trust scope l token now db) = db"
    using decide_loss_effect [OF surjective_pairing, of E policy trust scope l token now db]
    by (auto simp: assms default_hooks_def maintenance_hooks_def loss_expected_def Let_def and_then_Inr
        split: SourceKind.splits option.splits)
qed

theorem default_hooks_refuse_witness:
  "snd (decide_loss sample_journal_env (default_hooks (\<lambda>_ _ _. Inr ()) (\<lambda>_ _. Inr ())) sample_trust sample_journal_scope
     (sample_loss 51 52 [50, 51]) (sample_compact ''L'' ''3423'') 150 sample_lost_journal) = sample_lost_journal"
proof -
  have "l_supersedes (sample_loss 51 52 [50, 51]) \<noteq> None" by (simp add: sample_loss_def Let_def)
  then show ?thesis
    using default_hooks_refuse [OF refl, of sample_journal_env _ _ sample_trust sample_journal_scope] by blast
qed

end
