(* ===== verification/Text_Codecs.thy ===== *)
theory Text_Codecs
  imports Vesta_Prelude
begin

text \<open>
  The text encodings of the container crate: lowercase hexadecimal, \<^verbatim>\<open>src/src/hex.rs\<close>, and the
  pieces of Rust's \<open>str\<close> that it and the recovery code of \<open>Recovery_Code\<close> use. A \<open>str\<close> is the list of
  its UTF-8 bytes; slicing it inside a character panics, which is a value of its own here. The
  lemmas show that decoding inverts encoding, and exactly which texts decode.
\<close>

section \<open>Rust strings\<close>

datatype 'a call =
    Panicked
  | Returned 'a

fun call_then :: "'a call \<Rightarrow> ('a \<Rightarrow> 'b call) \<Rightarrow> 'b call" where
  "call_then Panicked f = Panicked"
| "call_then (Returned x) f = f x"

text \<open>Every byte of a character but its first is a continuation byte.\<close>

definition continuation :: "char \<Rightarrow> bool" where
  "continuation c \<longleftrightarrow> 128 \<le> (of_char c :: nat) \<and> of_char c < (192 :: nat)"

definition is_char_boundary :: "string \<Rightarrow> nat \<Rightarrow> bool" where
  "is_char_boundary s i \<longleftrightarrow> i = 0 \<or> i = length s \<or> i < length s \<and> \<not> continuation (s ! i)"

text \<open>\<open>&s[i..j]\<close> and \<open>s.split_at(i)\<close>.\<close>

definition str_slice :: "string \<Rightarrow> nat \<Rightarrow> nat \<Rightarrow> string call" where
  "str_slice s i j =
     (if i \<le> j \<and> is_char_boundary s i \<and> is_char_boundary s j then Returned (take (j - i) (drop i s)) else Panicked)"

definition split_at :: "string \<Rightarrow> nat \<Rightarrow> (string \<times> string) call" where
  "split_at s i = (if is_char_boundary s i then Returned (take i s, drop i s) else Panicked)"

text \<open>\<open>s.chars()\<close>, each character as the text of its bytes.\<close>

function chars :: "string \<Rightarrow> string list" where
  "chars [] = []"
| "chars (c # cs) = (c # takeWhile continuation cs) # chars (dropWhile continuation cs)"
  by pat_completeness auto
termination
  by (relation "measure length") (auto intro: le_imp_less_Suc length_dropWhile_le)

lemma concat_chars [simp]: "concat (chars s) = s"
  by (induction s rule: chars.induct) simp_all

definition ascii :: "string \<Rightarrow> bool" where
  "ascii s \<longleftrightarrow> list_all (\<lambda>c. (of_char c :: nat) < 128) s"

lemma ascii_simps [simp]:
  "ascii []" "ascii (c # cs) \<longleftrightarrow> (of_char c :: nat) < 128 \<and> ascii cs" "ascii (s @ t) \<longleftrightarrow> ascii s \<and> ascii t"
  by (simp_all add: ascii_def)

lemma ascii_boundary: "ascii s \<Longrightarrow> i \<le> length s \<Longrightarrow> is_char_boundary s i"
  by (auto simp: is_char_boundary_def continuation_def ascii_def list_all_length not_le)

lemma chars_ascii: "ascii s \<Longrightarrow> chars s = map (\<lambda>c. [c]) s"
proof (induction s)
  case (Cons c cs)
  have "takeWhile continuation cs = [] \<and> dropWhile continuation cs = cs"
    using Cons.prems by (cases cs) (auto simp: continuation_def)
  with Cons show ?case by simp
qed simp

section \<open>Digits\<close>

definition hex_digits :: string where
  "hex_digits = ''0123456789abcdef''"

definition hex_digit :: "nat \<Rightarrow> char" where
  "hex_digit n = hex_digits ! n"

text \<open>\<open>char::to_digit(16)\<close>.\<close>

definition to_digit16 :: "char \<Rightarrow> nat option" where
  "to_digit16 c =
     (let n = of_char c in
      if 48 \<le> n \<and> n \<le> 57 then Some (n - 48)
      else if 97 \<le> n \<and> n \<le> 102 then Some (n - 87)
      else if 65 \<le> n \<and> n \<le> 70 then Some (n - 55)
      else None)"

fun from_digits16 :: "nat \<Rightarrow> string \<Rightarrow> nat option" where
  "from_digits16 acc [] = Some acc"
| "from_digits16 acc (c # cs) =
     (case to_digit16 c of
        None \<Rightarrow> None
      | Some d \<Rightarrow> if 255 < acc * 16 + d then None else from_digits16 (acc * 16 + d) cs)"

text \<open>
  \<open>u8::from_str_radix(s, 16)\<close>: an optional plus sign, which does not stand alone, and digits that do
  not overflow.
\<close>

definition u8_from_hex :: "string \<Rightarrow> u8 option" where
  "u8_from_hex s =
     (case s of
        [] \<Rightarrow> None
      | c # cs \<Rightarrow> map_option word_of_nat (from_digits16 0 (if c = CHR ''+'' \<and> cs \<noteq> [] then cs else s)))"

section \<open>Hexadecimal\<close>

definition hex_byte :: "u8 \<Rightarrow> string" where
  "hex_byte b = [hex_digit (unat b div 16), hex_digit (unat b mod 16)]"

definition hex_encode :: "bytes \<Rightarrow> string" where
  "hex_encode bs = concat (map hex_byte bs)"

text \<open>
  The pairs are visited from the left; collecting into an \<open>Option\<close> stops at the first pair that is
  no number.
\<close>

fun hex_pairs :: "string \<Rightarrow> nat list \<Rightarrow> bytes option call" where
  "hex_pairs s [] = Returned (Some [])"
| "hex_pairs s (i # is) =
     call_then (str_slice s i (i + 2)) (\<lambda>pair.
       case u8_from_hex pair of
         None \<Rightarrow> Returned None
       | Some b \<Rightarrow> call_then (hex_pairs s is) (\<lambda>rest. Returned (map_option ((#) b) rest)))"

definition hex_decode :: "string \<Rightarrow> bytes option call" where
  "hex_decode s =
     (if length s mod 2 \<noteq> 0 then Returned None
      else hex_pairs s (map (\<lambda>k. 2 * k) [0..<length s div 2]))"

section \<open>What decodes\<close>

lemma to_digit16_digit:
  assumes "n < 16"
  shows "to_digit16 (hex_digit n) = Some n" "(of_char (hex_digit n) :: nat) < 128" "hex_digit n \<noteq> CHR ''+''"
proof -
  have "\<forall>n \<in> {..<16}. to_digit16 (hex_digit n) = Some n \<and> (of_char (hex_digit n) :: nat) < 128
      \<and> hex_digit n \<noteq> CHR ''+''"
    by code_simp
  with assms show "to_digit16 (hex_digit n) = Some n" "(of_char (hex_digit n) :: nat) < 128" "hex_digit n \<noteq> CHR ''+''"
    by auto
qed

lemma u8_from_hex_byte: "u8_from_hex (hex_byte b) = Some b"
proof -
  have b: "unat b < 256" using unsigned_less [of b] by simp
  then have "unat b div 16 < 16" "unat b mod 16 < 16" by auto
  moreover have "unat b div 16 * 16 + unat b mod 16 = unat b" by simp
  ultimately show ?thesis
    using b by (simp add: u8_from_hex_def hex_byte_def to_digit16_digit)
qed

text \<open>The same by recursion on the text: a pair must end at a character boundary.\<close>

fun pairs_from :: "string \<Rightarrow> bytes option call" where
  "pairs_from (a # b # s) =
     (if s \<noteq> [] \<and> continuation (hd s) then Panicked
      else case u8_from_hex [a, b] of
             None \<Rightarrow> Returned None
           | Some x \<Rightarrow> call_then (pairs_from s) (\<lambda>rest. Returned (map_option ((#) x) rest)))"
| "pairs_from _ = Returned (Some [])"

lemma hex_pairs_from:
  assumes "length s = 2 * n" "j \<le> n" "is_char_boundary s (2 * j)"
  shows "hex_pairs s (map (\<lambda>k. 2 * k) [j..<n]) = pairs_from (drop (2 * j) s)"
  using assms(2,3)
proof (induction j rule: inc_induct)
  case (step j)
  obtain a b t where d: "drop (2 * j) s = a # b # t"
  proof -
    have "2 \<le> length (drop (2 * j) s)" using step.hyps assms(1) by simp
    then show thesis using that by (cases "drop (2 * j) s" rule: list.exhaust [case_product list.exhaust]; cases "tl (drop (2 * j) s)") auto
  qed
  have t: "drop (2 * Suc j) s = t"
    using arg_cong [OF d, of "drop 2"] by (simp add: add.commute)
  have b: "is_char_boundary s (2 * Suc j) \<longleftrightarrow> \<not> (t \<noteq> [] \<and> continuation (hd t))"
    using t step.hyps assms(1) by (auto simp: is_char_boundary_def hd_drop_conv_nth [symmetric])
  have i: "map (\<lambda>k. 2 * k) [j..<n] = 2 * j # map (\<lambda>k. 2 * k) [Suc j..<n]"
    using step.hyps by (simp add: upt_conv_Cons)
  show ?case
  proof (cases "is_char_boundary s (2 * Suc j)")
    case True
    then have "hex_pairs s (map (\<lambda>k. 2 * k) [Suc j..<n]) = pairs_from t"
      using step.IH t by simp
    moreover have "str_slice s (2 * j) (2 * j + 2) = Returned [a, b]"
      using True step.prems d by (simp add: str_slice_def)
    ultimately show ?thesis using True b by (auto simp: i d split: option.splits)
  next
    case False
    then have "str_slice s (2 * j) (2 * j + 2) = Panicked" by (simp add: str_slice_def)
    then show ?thesis using False b by (simp add: i d)
  qed
qed (use assms(1) in simp)

lemma hex_decode_alt:
  "hex_decode s = (if length s mod 2 \<noteq> 0 then Returned None else pairs_from s)"
proof (cases "length s mod 2 = 0")
  case True
  then have "length s = 2 * (length s div 2)" by auto
  from hex_pairs_from [OF this, of 0] True show ?thesis
    by (simp add: hex_decode_def is_char_boundary_def)
qed (simp add: hex_decode_def)

lemma not_continuation_digit: "n < 16 \<Longrightarrow> \<not> continuation (hex_digit n)"
  using to_digit16_digit(2) by (fastforce simp: continuation_def)

lemma byte_nibbles: "unat (b :: u8) div 16 < 16" "unat b mod 16 < 16" "unat b < 256"
proof -
  show "unat b < 256" using unsigned_less [of b] by simp
  then show "unat b div 16 < 16" by auto
qed simp

lemma hex_byte_head: "\<not> continuation (hd (hex_byte b))"
  by (simp add: hex_byte_def not_continuation_digit byte_nibbles)

lemma pairs_from_encode: "pairs_from (hex_encode bs) = Returned (Some bs)"
proof (induction bs)
  case (Cons b bs)
  have "\<not> (hex_encode bs \<noteq> [] \<and> continuation (hd (hex_encode bs)))"
    using hex_byte_head by (cases bs) (auto simp: hex_encode_def hex_byte_def)
  moreover have "hex_encode (b # bs) = hex_digit (unat b div 16) # hex_digit (unat b mod 16) # hex_encode bs"
    by (simp add: hex_encode_def hex_byte_def)
  ultimately show ?case
    using Cons u8_from_hex_byte [of b] by (simp add: hex_byte_def)
qed (simp add: hex_encode_def)

lemma length_hex_encode: "length (hex_encode bs) = 2 * length bs"
  by (induction bs) (simp_all add: hex_encode_def hex_byte_def)

text \<open>What a pair of bytes may be: two hexadecimal digits, or a plus sign and one.\<close>

definition hex_pair :: "char \<Rightarrow> char \<Rightarrow> nat option" where
  "hex_pair a b =
     (case to_digit16 b of
        None \<Rightarrow> None
      | Some y \<Rightarrow> if a = CHR ''+'' then Some y else map_option (\<lambda>x. x * 16 + y) (to_digit16 a))"

lemma to_digit16_bound: "to_digit16 c = Some d \<Longrightarrow> d < 16 \<and> (of_char c :: nat) < 128"
  by (auto simp: to_digit16_def Let_def split: if_splits)

lemma u8_from_hex_pair: "u8_from_hex [a, b] = map_option word_of_nat (hex_pair a b)"
  using to_digit16_bound [of a] to_digit16_bound [of b]
  by (fastforce simp: u8_from_hex_def hex_pair_def split: option.splits)

lemma hex_pair_ascii: "hex_pair a b = Some x \<Longrightarrow> (of_char a :: nat) < 128 \<and> (of_char b :: nat) < 128 \<and> x < 256"
  using to_digit16_bound [of a] to_digit16_bound [of b]
  by (fastforce simp: hex_pair_def split: option.splits if_splits)

fun text_pairs :: "string \<Rightarrow> (char \<times> char) list" where
  "text_pairs (a # b # s) = (a, b) # text_pairs s"
| "text_pairs _ = []"

lemma pairs_from_Some:
  "length s mod 2 = 0 \<Longrightarrow>
     pairs_from s = Returned (Some bs) \<longleftrightarrow> map (case_prod hex_pair) (text_pairs s) = map (\<lambda>b. Some (unat b)) bs"
proof (induction s arbitrary: bs rule: pairs_from.induct)
  case (1 a b s)
  have cont: "hex_pair (hd s) c = None" if "continuation (hd s)" for c
    using that hex_pair_ascii [of "hd s" c] by (cases "hex_pair (hd s) c") (auto simp: continuation_def)
  have "map (case_prod hex_pair) (text_pairs s) \<noteq> map (\<lambda>b. Some (unat b)) bs'"
    if "s \<noteq> []" "continuation (hd s)" for bs' :: bytes
    using that cont "1.prems" by (cases s rule: text_pairs.cases; cases bs') auto
  note bad = this
  show ?case
  proof (cases "hex_pair a b")
    case None
    then show ?thesis by (cases bs) (auto simp: u8_from_hex_pair)
  next
    case (Some x)
    then have x: "unat (word_of_nat x :: u8) = x"
      using hex_pair_ascii [OF Some] by (simp add: unat_of_nat)
    show ?thesis
    proof (cases "s \<noteq> [] \<and> continuation (hd s)")
      case True
      then show ?thesis using bad by (cases bs) auto
    next
      case False
      then have IH: "pairs_from s = Returned (Some bs') \<longleftrightarrow>
          map (case_prod hex_pair) (text_pairs s) = map (\<lambda>b. Some (unat b)) bs'" for bs'
        using "1.IH" "1.prems" Some by (auto simp: u8_from_hex_pair)
      show ?thesis
      proof (cases bs)
        case Nil
        then show ?thesis using False Some by (cases "pairs_from s") (auto simp: u8_from_hex_pair)
      next
        case (Cons b' bs')
        have "call_then (pairs_from s) (\<lambda>rest. Returned (map_option ((#) (word_of_nat x)) rest)) = Returned (Some bs)
            \<longleftrightarrow> word_of_nat x = b' \<and> pairs_from s = Returned (Some bs')"
          by (cases "pairs_from s") (auto simp: Cons)
        then show ?thesis using False Some IH x by (auto simp: u8_from_hex_pair Cons)
      qed
    qed
  qed
qed auto

lemma pairs_from_Panicked:
  "length s mod 2 = 0 \<Longrightarrow>
     pairs_from s = Panicked \<longleftrightarrow>
     (\<exists>k. 2 * k + 2 < length s \<and> continuation (s ! (2 * k + 2))
        \<and> list_all (\<lambda>(a, b). hex_pair a b \<noteq> None) (take k (text_pairs s)))"
proof (induction s rule: pairs_from.induct)
  case (1 a b s)
  let ?bad = "\<lambda>k. 2 * k + 2 < length (a # b # s) \<and> continuation ((a # b # s) ! (2 * k + 2))
        \<and> list_all (\<lambda>(a, b). hex_pair a b \<noteq> None) (take k (text_pairs (a # b # s)))"
  have zero: "?bad 0 \<longleftrightarrow> s \<noteq> [] \<and> continuation (hd s)"
    by (cases s) auto
  have suc: "?bad (Suc k) \<longleftrightarrow> hex_pair a b \<noteq> None \<and> 2 * k + 2 < length s \<and> continuation (s ! (2 * k + 2))
        \<and> list_all (\<lambda>(a, b). hex_pair a b \<noteq> None) (take k (text_pairs s))" for k
    by auto
  have split: "(\<exists>k. ?bad k) \<longleftrightarrow> ?bad 0 \<or> (\<exists>k. ?bad (Suc k))"
    by (metis not0_implies_Suc)
  show ?case
  proof (cases "s \<noteq> [] \<and> continuation (hd s)")
    case True
    then show ?thesis unfolding split zero by simp
  next
    case False
    show ?thesis
    proof (cases "hex_pair a b")
      case None
      then show ?thesis using False unfolding split zero suc by (simp add: u8_from_hex_pair)
    next
      case (Some x)
      have "pairs_from (a # b # s) = Panicked \<longleftrightarrow> pairs_from s = Panicked"
        using False Some by (cases "pairs_from s") (auto simp: u8_from_hex_pair)
      also have "\<dots> \<longleftrightarrow> (\<exists>k. 2 * k + 2 < length s \<and> continuation (s ! (2 * k + 2))
        \<and> list_all (\<lambda>(a, b). hex_pair a b \<noteq> None) (take k (text_pairs s)))"
        using "1.IH" "1.prems" False Some by (auto simp: u8_from_hex_pair)
      finally show ?thesis using False Some unfolding split zero suc by (simp only: option.distinct) blast
    qed
  qed
qed auto

section \<open>Properties\<close>

text \<open>
  C29. Hexadecimal encoding is inverted by decoding, for every byte string, and it is known exactly
  what decodes. A text decodes if and only if its length is even and each of its pairs
  is two hexadecimal digits of either case, or a plus sign and one digit, which the documentation
  does not mention; and decoding panics if and only if a pair ends inside a character and all the
  pairs before that one are numbers.
\<close>

theorem hex_decodes_exactly:
  "hex_decode (hex_encode bs) = Returned (Some bs) \<and> length (hex_encode bs) = 2 * length bs
   \<and> (hex_decode s = Returned (Some bs) \<longleftrightarrow>
      length s mod 2 = 0 \<and> map (case_prod hex_pair) (text_pairs s) = map (\<lambda>b. Some (unat b)) bs)
   \<and> (hex_decode s = Panicked \<longleftrightarrow>
      length s mod 2 = 0
    \<and> (\<exists>k. 2 * k + 2 < length s \<and> continuation (s ! (2 * k + 2))
         \<and> list_all (\<lambda>(a, b). hex_pair a b \<noteq> None) (take k (text_pairs s))))"
  using pairs_from_Some [of s bs] pairs_from_Panicked [of s]
  by (auto simp: hex_decode_alt pairs_from_encode length_hex_encode)

end
