(* ===== verification/Recovery_Code.thy ===== *)
theory Recovery_Code
  imports Text_Codecs
begin

text \<open>
  The recovery code of a container, \<^verbatim>\<open>src/src/recovery.rs\<close>: 160 bits, shown as nine groups of four
  Crockford Base32 characters, the last of them a CRC-16. The two codecs keep their pending bits in
  a 32 bit buffer whose upper bits are stale; the lemmas show that they compute the regrouping of
  the bit sequence all the same, that a code survives printing and transcription, and that one
  mistyped character never gives another code.
\<close>

unbundle bit_operations_syntax

section \<open>Base32\<close>

definition RECOVERY_ENTROPY_BYTES :: nat where
  "RECOVERY_ENTROPY_BYTES = 20"

definition ALPHABET :: string where
  "ALPHABET = ''0123456789ABCDEFGHJKMNPQRSTVWXYZ''"

text \<open>
  The counter of pending bits stays below 13 in both codecs, so it is a natural number here; the
  buffer is a word and drops the bits that are shifted out.
\<close>

fun base32_emit :: "u32 \<Rightarrow> nat \<Rightarrow> string \<Rightarrow> nat \<times> string" where
  "base32_emit buffer bits out =
     (if 5 \<le> bits
      then base32_emit buffer (bits - 5) (out @ [ALPHABET ! unat (drop_bit (bits - 5) buffer AND 0x1f)])
      else (bits, out))"

declare base32_emit.simps [simp del]

fun base32_push :: "bytes \<Rightarrow> u32 \<Rightarrow> nat \<Rightarrow> string \<Rightarrow> u32 \<times> nat \<times> string" where
  "base32_push [] buffer bits out = (buffer, bits, out)"
| "base32_push (b # bs) buffer bits out =
     (let buffer = push_bit 8 buffer OR ucast b;
          (bits, out) = base32_emit buffer (bits + 8) out
      in base32_push bs buffer bits out)"

definition base32_encode :: "bytes \<Rightarrow> string" where
  "base32_encode data =
     (let (buffer, bits, out) = base32_push data 0 0 []
      in if 0 < bits then out @ [ALPHABET ! unat (push_bit (5 - bits) buffer AND 0x1f)] else out)"

text \<open>\<open>iter().position(|&a| a == x)\<close>.\<close>

fun index_of :: "'a \<Rightarrow> 'a list \<Rightarrow> nat option" where
  "index_of x [] = None"
| "index_of x (y # ys) = (if y = x then Some 0 else map_option Suc (index_of x ys))"

fun base32_pull :: "string \<Rightarrow> u32 \<Rightarrow> nat \<Rightarrow> bytes \<Rightarrow> bytes option" where
  "base32_pull [] buffer bits out = Some out"
| "base32_pull (ch # chs) buffer bits out =
     (case index_of ch ALPHABET of
        None \<Rightarrow> None
      | Some v \<Rightarrow>
          let buffer = push_bit 5 buffer OR word_of_nat v; bits = bits + 5
          in if 8 \<le> bits
             then base32_pull chs buffer (bits - 8) (out @ [ucast (drop_bit (bits - 8) buffer AND 0xff)])
             else base32_pull chs buffer bits out)"

definition base32_decode :: "string \<Rightarrow> bytes option" where
  "base32_decode s = base32_pull s 0 0 []"

section \<open>The checksum\<close>

definition crc_shift :: "u16 \<Rightarrow> u16" where
  "crc_shift crc = (if crc AND 0x8000 \<noteq> 0 then push_bit 1 crc XOR 0x1021 else push_bit 1 crc)"

definition crc_byte :: "u16 \<Rightarrow> u8 \<Rightarrow> u16" where
  "crc_byte crc b = (crc_shift ^^ 8) (crc XOR push_bit 8 (ucast b))"

definition crc16 :: "bytes \<Rightarrow> u16" where
  "crc16 data = foldl crc_byte 0xFFFF data"

definition u16_to_be_bytes :: "u16 \<Rightarrow> bytes" where
  "u16_to_be_bytes w = [ucast (drop_bit 8 w), ucast w]"

definition u16_from_be_bytes :: "u8 \<Rightarrow> u8 \<Rightarrow> u16" where
  "u16_from_be_bytes hi lo = push_bit 8 (ucast hi) OR ucast lo"

section \<open>Recovery codes\<close>

text \<open>A \<open>RecoveryCode\<close> is an array of twenty bytes.\<close>

type_synonym RecoveryCode = bytes

definition recovery_code :: "RecoveryCode \<Rightarrow> bool" where
  "recovery_code code \<longleftrightarrow> length code = RECOVERY_ENTROPY_BYTES"

fun grouped :: "nat \<Rightarrow> string \<Rightarrow> string" where
  "grouped i [] = []"
| "grouped i (ch # chs) = (if 0 < i \<and> i mod 4 = 0 then [CHR ''-''] else []) @ ch # grouped (Suc i) chs"

definition code_format :: "RecoveryCode \<Rightarrow> string" where
  "code_format code =
     grouped 0 (base32_encode code) @ ''-'' @ base32_encode (u16_to_be_bytes (crc16 code))"

text \<open>The messages of \<open>Error::RecoveryCodeInvalid\<close>.\<close>

datatype RecoveryCodeInvalid =
    Expected36CharactersGot nat
  | IllegalCharacter
  | WrongDecodedLength
  | ChecksumMismatch

text \<open>\<open>char::to_ascii_uppercase\<close>, on a character as the text of its bytes.\<close>

definition ascii_uppercase :: "string \<Rightarrow> string" where
  "ascii_uppercase ch =
     map (\<lambda>c. if 97 \<le> (of_char c :: nat) \<and> of_char c \<le> (122 :: nat) then char_of ((of_char c :: nat) - 32) else c) ch"

definition normal_char :: "string \<Rightarrow> string" where
  "normal_char ch =
     (if ch = ''-'' \<or> blank ch then []
      else let c = ascii_uppercase ch in
           if c = ''O'' then ''0'' else if c = ''I'' \<or> c = ''L'' then ''1'' else c)"

definition normalized :: "string \<Rightarrow> string" where
  "normalized input = concat (map normal_char (chars input))"

definition code_parse :: "string \<Rightarrow> (RecoveryCodeInvalid + RecoveryCode) call" where
  "code_parse input =
     (let norm = normalized input in
      if length norm \<noteq> 36 then Returned (Inl (Expected36CharactersGot (length norm)))
      else call_then (split_at norm 32) (\<lambda>(payload_s, check_s).
        case base32_decode payload_s of
          None \<Rightarrow> Returned (Inl IllegalCharacter)
        | Some payload \<Rightarrow>
            case base32_decode check_s of
              None \<Rightarrow> Returned (Inl IllegalCharacter)
            | Some check \<Rightarrow>
                if length payload \<noteq> RECOVERY_ENTROPY_BYTES \<or> length check < 2
                then Returned (Inl WrongDecodedLength)
                else if u16_from_be_bytes (check ! 0) (check ! 1) \<noteq> crc16 payload
                then Returned (Inl ChecksumMismatch)
                else Returned (Inr payload)))"

section \<open>Bits, the most significant first\<close>

definition low :: "nat \<Rightarrow> 'a::len word \<Rightarrow> bool list" where
  "low n w = map (bit w) (rev [0..<n])"

lemma length_low [simp]: "length (low n w) = n"
  by (simp add: low_def)

lemma low_0 [simp]: "low 0 w = []"
  by (simp add: low_def)

lemma rev_upt_add: "rev [0..<m + n] = map (\<lambda>i. i + n) (rev [0..<m]) @ rev [0..<n]"
proof -
  have "[0..<m + n] = [0..<n] @ map (\<lambda>i. i + n) [0..<m]"
    using upt_add_eq_append [of 0 n m] by (simp add: map_add_upt add.commute)
  then show ?thesis by (simp add: rev_map)
qed

lemma low_drop: "low (m + n) w = low m (drop_bit n w) @ low n w"
  by (simp add: low_def rev_upt_add bit_drop_bit_eq o_def add.commute)

lemma low_split: "m \<le> n \<Longrightarrow> low n w = low m (drop_bit (n - m) w) @ low (n - m) w"
  using low_drop [of m "n - m" w] by simp

lemma low_push:
  fixes w v :: "'a::len word"
  assumes "m + n \<le> LENGTH('a)" "\<And>i. n \<le> i \<Longrightarrow> \<not> bit v i"
  shows "low (m + n) (push_bit n w OR v) = low m w @ low n v"
  using assms unfolding low_drop
  by (auto simp: low_def bit_or_iff bit_push_bit_iff bit_drop_bit_eq)

lemma low_ucast:
  "n \<le> LENGTH('b) \<Longrightarrow> low n (ucast (w :: 'a::len word) :: 'b::len word) = low n w"
  by (auto simp: low_def bit_ucast_iff)

lemma low_take: "m \<le> n \<Longrightarrow> low m (take_bit n w) = low m w"
  by (auto simp: low_def bit_take_bit_iff)

lemma low_eq_iff: "low n v = low n w \<longleftrightarrow> take_bit n v = take_bit n (w :: 'a::len word)"
proof -
  have "low n v = low n w \<longleftrightarrow> (\<forall>i < n. bit v i = bit w i)"
    by (auto simp: low_def)
  also have "\<dots> \<longleftrightarrow> take_bit n v = take_bit n w"
    unfolding bit_eq_iff by (auto simp: bit_take_bit_iff) (metis bit_imp_possible_bit possible_bit_word)+
  finally show ?thesis .
qed

lemma low_inj: "low LENGTH('a) v = low LENGTH('a) w \<longleftrightarrow> v = (w :: 'a::len word)"
  by (simp add: low_eq_iff)


section \<open>Base32 regroups bits\<close>

definition digit_bits :: "char \<Rightarrow> bool list" where
  "digit_bits c = low 5 (word_of_nat (the (index_of c ALPHABET)) :: u32)"

definition text_bits :: "string \<Rightarrow> bool list" where
  "text_bits s = concat (map digit_bits s)"

definition data_bits :: "bytes \<Rightarrow> bool list" where
  "data_bits bs = concat (map (low 8) bs)"

lemma text_bits_simps [simp]:
  "text_bits [] = []" "text_bits (c # s) = digit_bits c @ text_bits s" "text_bits (s @ t) = text_bits s @ text_bits t"
  by (simp_all add: text_bits_def)

lemma data_bits_simps [simp]:
  "data_bits [] = []" "data_bits (b # bs) = low 8 b @ data_bits bs" "data_bits (bs @ cs) = data_bits bs @ data_bits cs"
  by (simp_all add: data_bits_def)

lemma length_digit_bits [simp]: "length (digit_bits c) = 5"
  by (simp add: digit_bits_def)

lemma length_text_bits [simp]: "length (text_bits s) = 5 * length s"
  by (induction s) simp_all

lemma length_data_bits [simp]: "length (data_bits bs) = 8 * length bs"
  by (induction bs) simp_all

lemma data_bits_inj: "length bs = length cs \<Longrightarrow> data_bits bs = data_bits cs \<longleftrightarrow> bs = cs"
  by (induction bs cs rule: list_induct2) (simp_all add: low_inj [where 'a = 8, simplified])

lemma index_of_Some: "index_of x xs = Some i \<Longrightarrow> i < length xs \<and> xs ! i = x"
  by (induction xs arbitrary: i) (auto split: if_splits)

lemma index_of_None: "index_of x xs = None \<longleftrightarrow> x \<notin> set xs"
  by (induction xs) auto

lemma index_of_distinct: "distinct xs \<Longrightarrow> i < length xs \<Longrightarrow> index_of (xs ! i) xs = Some i"
proof (induction xs arbitrary: i)
  case (Cons x xs)
  then show ?case by (cases i) (auto simp: nth_mem)
qed simp

lemma alphabet: "length ALPHABET = 32" "distinct ALPHABET"
  by (simp_all add: ALPHABET_def)

lemma low_5_alphabet:
  fixes w :: u32
  shows "digit_bits (ALPHABET ! unat (w AND 0x1f)) = low 5 w" "ALPHABET ! unat (w AND 0x1f) \<in> set ALPHABET"
proof -
  have mask: "w AND 0x1f = take_bit 5 w"
    by (simp add: take_bit_eq_mask mask_numeral)
  have "unat (take_bit 5 w) = take_bit 5 (unat w)"
    by (simp add: unsigned_take_bit_eq)
  then have "unat (w AND 0x1f) < 32"
    using take_bit_nat_less_exp [of 5 "unat w"] by (simp add: mask)
  then show "ALPHABET ! unat (w AND 0x1f) \<in> set ALPHABET"
      "digit_bits (ALPHABET ! unat (w AND 0x1f)) = low 5 w"
    by (simp_all add: digit_bits_def index_of_distinct alphabet mask low_take)
qed

lemma base32_emit_bits:
  assumes "base32_emit buffer bits out = (bits', out')"
  shows "bits' < 5 \<and> bits' \<le> bits \<and> text_bits out' @ low bits' buffer = text_bits out @ low bits buffer
    \<and> (set out \<subseteq> set ALPHABET \<longrightarrow> set out' \<subseteq> set ALPHABET)"
  using assms
proof (induction buffer bits out rule: base32_emit.induct)
  case (1 buffer bits out)
  show ?case
  proof (cases "5 \<le> bits")
    case True
    then have "low bits buffer = low 5 (drop_bit (bits - 5) buffer) @ low (bits - 5) buffer"
      by (rule low_split)
    with 1 True show ?thesis
      by (subst (asm) (2) base32_emit.simps) (auto simp: low_5_alphabet)
  next
    case False
    with 1 show ?thesis by (subst (asm) (2) base32_emit.simps) auto
  qed
qed

lemma base32_push_bits:
  assumes "base32_push bs buffer bits out = (buffer', bits', out')" "bits < 5" "set out \<subseteq> set ALPHABET"
  shows "bits' < 5 \<and> text_bits out' @ low bits' buffer' = text_bits out @ low bits buffer @ data_bits bs
    \<and> set out' \<subseteq> set ALPHABET"
  using assms
proof (induction bs buffer bits out rule: base32_push.induct)
  case (2 b bs buffer bits out)
  let ?buffer = "push_bit 8 buffer OR ucast b :: u32"
  obtain bits1 out1 where emit: "base32_emit ?buffer (bits + 8) out = (bits1, out1)"
    by fastforce
  have "low (bits + 8) ?buffer = low bits buffer @ low 8 (ucast b :: u32)"
    using "2.prems"(2) by (intro low_push) (auto simp: bit_ucast_iff dest: bit_imp_le_length)
  then have "low (bits + 8) ?buffer = low bits buffer @ low 8 b"
    by (simp add: low_ucast)
  with 2 emit base32_emit_bits [OF emit] show ?case
    by auto
qed auto

definition padding :: "nat \<Rightarrow> nat" where
  "padding n = (5 - 8 * n mod 5) mod 5"

lemma base32_encode_bits:
  "text_bits (base32_encode bs) = data_bits bs @ replicate (padding (length bs)) False"
  "set (base32_encode bs) \<subseteq> set ALPHABET"
proof -
  obtain buffer bits out where push: "base32_push bs 0 0 [] = (buffer, bits, out)"
    by (metis surj_pair)
  note inv = base32_push_bits [OF push, simplified]
  have length: "8 * length bs = 5 * length out + bits"
    using arg_cong [of _ _ length, OF inv [THEN conjunct2, THEN conjunct1]] by simp
  have pad: "low (bits + (5 - bits)) (push_bit (5 - bits) buffer OR 0) = low bits buffer @ low (5 - bits) (0 :: u32)"
    using inv by (intro low_push) auto
  have zero: "low n (0 :: u32) = replicate n False" for n
    by (rule nth_equalityI) (simp_all add: low_def)
  have padding: "padding (length bs) = (if 0 < bits then 5 - bits else 0)"
    using inv by (simp add: padding_def length)
  show "text_bits (base32_encode bs) = data_bits bs @ replicate (padding (length bs)) False"
    using inv pad by (auto simp: base32_encode_def push padding low_5_alphabet zero)
  show "set (base32_encode bs) \<subseteq> set ALPHABET"
    using inv by (auto simp: base32_encode_def push low_5_alphabet)
qed

lemma low_8_byte: "low 8 (ucast (w AND 0xff) :: u8) = low 8 (w :: u32)"
proof -
  have "w AND 0xff = take_bit 8 w"
    by (simp add: take_bit_eq_mask mask_numeral)
  then show ?thesis by (simp add: low_ucast low_take)
qed

lemma base32_pull_bits:
  assumes "bits < 8"
  shows "case base32_pull s buffer bits out of
           None \<Rightarrow> \<not> set s \<subseteq> set ALPHABET
         | Some bs \<Rightarrow> set s \<subseteq> set ALPHABET
             \<and> (\<exists>rest. length rest < 8 \<and> data_bits bs @ rest = data_bits out @ low bits buffer @ text_bits s)"
  using assms
proof (induction s buffer bits out rule: base32_pull.induct)
  case (1 buffer bits out)
  then show ?case by auto
next
  case (2 ch chs buffer bits out)
  show ?case
  proof (cases "index_of ch ALPHABET")
    case None
    then have "ch \<notin> set ALPHABET" by (simp add: index_of_None)
    with None show ?thesis by simp
  next
    case (Some v)
    let ?buffer = "push_bit 5 buffer OR word_of_nat v :: u32"
    from Some have v: "v < 32" "ch \<in> set ALPHABET"
      using index_of_Some [OF Some] by (auto simp: alphabet)
    have "\<not> bit (word_of_nat v :: u32) i" if "5 \<le> i" for i
    proof -
      have "v < 2 ^ i"
        using v(1) power_increasing [OF that, of "2 :: nat"] by simp
      then have "\<not> bit v i" by (simp add: bit_iff_odd)
      then show ?thesis by (simp add: bit_of_nat_iff)
    qed
    then have "low (bits + 5) ?buffer = low bits buffer @ low 5 (word_of_nat v :: u32)"
      using "2.prems" by (intro low_push) auto
    then have pushed: "low (bits + 5) ?buffer = low bits buffer @ digit_bits ch"
      by (simp add: digit_bits_def Some)
    show ?thesis
    proof (cases "8 \<le> bits + 5")
      case True
      then have "low (bits + 5) ?buffer = low 8 (drop_bit (bits + 5 - 8) ?buffer) @ low (bits + 5 - 8) ?buffer"
        by (rule low_split)
      with pushed have bits: "low bits buffer @ digit_bits ch =
          low 8 (drop_bit (bits + 5 - 8) ?buffer) @ low (bits + 5 - 8) ?buffer"
        by simp
      have step: "base32_pull (ch # chs) buffer bits out =
          base32_pull chs ?buffer (bits + 5 - 8) (out @ [ucast (drop_bit (bits + 5 - 8) ?buffer AND 0xff)])"
        using Some True by (simp add: Let_def)
      have "bits + 5 - 8 < 8" using "2.prems" by simp
      note ih = "2.IH"(1) [OF Some refl refl True this, folded step]
      have "data_bits out @ low bits buffer @ text_bits (ch # chs) =
          data_bits (out @ [ucast (drop_bit (bits + 5 - 8) ?buffer AND 0xff)])
            @ low (bits + 5 - 8) ?buffer @ text_bits chs"
        unfolding data_bits_simps text_bits_simps low_8_byte append_assoc [symmetric] bits
        by simp
      with ih v show ?thesis
        by (simp only: set_simps insert_subset simp_thms)
    next
      case False
      with "2.IH"(2) [OF Some refl refl False] Some pushed v show ?thesis
        by (simp add: Let_def split: option.splits)
    qed
  qed
qed

lemma base32_decode_iff:
  "base32_decode s = Some bs \<longleftrightarrow>
     set s \<subseteq> set ALPHABET \<and> (\<exists>rest. length rest < 8 \<and> text_bits s = data_bits bs @ rest)"
proof
  assume "base32_decode s = Some bs"
  with base32_pull_bits [where s = s and buffer = 0 and bits = 0 and out = "[]"]
  show "set s \<subseteq> set ALPHABET \<and> (\<exists>rest. length rest < 8 \<and> text_bits s = data_bits bs @ rest)"
    by (auto simp: base32_decode_def)
next
  assume rhs: "set s \<subseteq> set ALPHABET \<and> (\<exists>rest. length rest < 8 \<and> text_bits s = data_bits bs @ rest)"
  then obtain cs rest rest' where decoded: "base32_decode s = Some cs"
    and rest: "length rest < 8" "text_bits s = data_bits bs @ rest"
    and rest': "length rest' < 8" "text_bits s = data_bits cs @ rest'"
    using base32_pull_bits [where s = s and buffer = 0 and bits = 0 and out = "[]"]
    by (auto simp: base32_decode_def split: option.splits)
  have "8 * length bs + length rest = 8 * length cs + length rest'"
    using arg_cong [of _ _ length, OF rest(2)] arg_cong [of _ _ length, OF rest'(2)] by simp
  with rest(1) rest'(1) have "length bs = length cs"
    by linarith
  with rest(2) rest'(2) have "bs = cs"
    by (simp add: data_bits_inj)
  with decoded show "base32_decode s = Some bs"
    by simp
qed

lemma base32_roundtrip: "base32_decode (base32_encode bs) = Some bs"
proof -
  have "padding (length bs) < 8"
    using mod_less_divisor [of 5 "5 - 8 * length bs mod 5"] by (simp add: padding_def)
  then show ?thesis
    by (auto simp: base32_decode_iff base32_encode_bits)
qed

lemma text_bits_inj:
  "length s = length t \<Longrightarrow> set s \<subseteq> set ALPHABET \<Longrightarrow> set t \<subseteq> set ALPHABET \<Longrightarrow> text_bits s = text_bits t \<Longrightarrow> s = t"
proof (induction s t rule: list_induct2)
  case (Cons c s d t)
  have "distinct (map digit_bits ALPHABET)"
    by code_simp
  then have "inj_on digit_bits (set ALPHABET)"
    by (simp add: distinct_map)
  with Cons show ?case by (auto dest: inj_onD)
qed simp

lemma base32_encode_decoded:
  assumes "base32_decode s = Some bs" "5 * length s = 8 * length bs"
  shows "base32_encode bs = s"
proof (rule text_bits_inj)
  have "padding (length bs) = 0"
    by (simp add: padding_def flip: assms(2))
  then have encoded: "text_bits (base32_encode bs) = data_bits bs"
    by (simp add: base32_encode_bits)
  have "5 * length (base32_encode bs) = 5 * length s"
    using arg_cong [of _ _ length, OF encoded] assms(2) by (simp only: length_text_bits length_data_bits)
  then show "length (base32_encode bs) = length s"
    by simp
  obtain rest where rest: "text_bits s = data_bits bs @ rest"
    using assms(1) by (auto simp: base32_decode_iff)
  have "length rest = 0"
    using arg_cong [of _ _ length, OF rest] assms(2)
    unfolding length_append length_text_bits length_data_bits by simp
  with rest encoded show "text_bits (base32_encode bs) = text_bits s"
    by simp
qed (use assms base32_encode_bits in \<open>auto simp: base32_decode_iff\<close>)

lemma length_base32_encode: "length (base32_encode bs) = (8 * length bs + padding (length bs)) div 5"
  using arg_cong [of _ _ length, OF base32_encode_bits(1) [of bs]] by simp

section \<open>The checksum separates neighbours\<close>

lemma crc_shift_alt: "crc_shift w = push_bit 1 w XOR (if bit w 15 then 0x1021 else 0)"
proof -
  have "w AND 0x8000 \<noteq> 0 \<longleftrightarrow> bit w 15"
    using and_exp_eq_0_iff_not_bit [of w 15] by simp
  then show ?thesis by (simp add: crc_shift_def)
qed

lemma crc_shift_xor: "crc_shift (v XOR w) = crc_shift v XOR crc_shift w"
  by (simp add: crc_shift_alt push_bit_xor bit_xor_iff xor.assoc xor.left_commute xor.commute)

lemma crc_shift_eq_0: "crc_shift w = 0 \<longleftrightarrow> w = 0"
proof
  assume zero: "crc_shift w = 0"
  have "bit (crc_shift w) 0 \<longleftrightarrow> bit w 15"
    unfolding crc_shift_alt bit_xor_iff bit_push_bit_iff by simp
  with zero have top: "\<not> bit w 15" by simp
  with zero have shifted: "push_bit 1 w = 0" by (simp add: crc_shift_alt)
  have "\<not> bit w n" if "n < 15" for n
    using arg_cong [of _ _ "\<lambda>v. bit v (Suc n)", OF shifted] that unfolding bit_push_bit_iff by simp
  with top have "\<not> bit w n" if "n < 16" for n
    using that by (cases "n = 15") auto
  then show "w = 0" by (intro bit_word_eqI) simp
qed (simp add: crc_shift_alt)

lemma crc_shifts_xor: "(crc_shift ^^ n) (v XOR w) = (crc_shift ^^ n) v XOR (crc_shift ^^ n) w"
  by (induction n) (simp_all add: crc_shift_xor)

lemma xor_eq_0: "v XOR w = 0 \<longleftrightarrow> v = (w :: 'a::len word)"
  by (auto simp: bit_eq_iff bit_xor_iff)

lemma crc_shifts_inj: "(crc_shift ^^ n) v = (crc_shift ^^ n) w \<longleftrightarrow> v = w"
proof -
  have "(crc_shift ^^ n) u = 0 \<longleftrightarrow> u = 0" for u
    by (induction n) (simp_all add: crc_shift_eq_0)
  from this [of "v XOR w"] show ?thesis
    by (simp add: crc_shifts_xor xor_eq_0)
qed

lemma crc_shifts_byte: "n \<le> 8 \<Longrightarrow> (crc_shift ^^ n) (ucast (b :: u8)) = push_bit n (ucast b)"
proof (induction n)
  case (Suc n)
  then have "\<not> bit (push_bit n (ucast b) :: u16) 15"
    by (auto simp: bit_push_bit_iff bit_ucast_iff dest: bit_imp_le_length)
  then have "crc_shift (push_bit n (ucast b)) = push_bit (1 + n) (ucast b)"
    unfolding crc_shift_alt push_bit_push_bit [symmetric] by simp
  with Suc show ?case by simp
qed simp

lemma crc_byte_inj: "crc_byte v b = crc_byte w b \<longleftrightarrow> v = w"
  by (simp add: crc_byte_def crc_shifts_inj) (auto simp: bit_eq_iff bit_xor_iff)

lemma foldl_crc_inj: "foldl crc_byte v bs = foldl crc_byte w bs \<longleftrightarrow> v = w"
  by (induction bs arbitrary: v w) (simp_all add: crc_byte_inj)

lemma crc_pair:
  assumes "crc16 (u @ a # b # v) = crc16 (u @ c # d # v)"
  shows "a = c \<and> b = d"
proof -
  define w where "w = foldl crc_byte 0xFFFF u"
  let ?T = "crc_shift ^^ 8"
  have "crc_byte (crc_byte w a) b = crc_byte (crc_byte w c) d"
    using assms by (simp add: crc16_def foldl_crc_inj w_def)
  then have "crc_byte w a XOR push_bit 8 (ucast b) = crc_byte w c XOR push_bit 8 (ucast d)"
    by (simp only: crc_byte_def crc_shifts_inj)
  then have "crc_byte w a XOR crc_byte w c = push_bit 8 (ucast b) XOR push_bit 8 (ucast d)"
    by (auto simp: bit_eq_iff bit_xor_iff)
  also have "\<dots> = ?T (ucast b XOR ucast d)"
    by (simp add: crc_shifts_xor crc_shifts_byte)
  finally have "?T ((w XOR push_bit 8 (ucast a)) XOR (w XOR push_bit 8 (ucast c))) = ?T (ucast b XOR ucast d)"
    by (simp only: crc_byte_def crc_shifts_xor)
  then have eq: "push_bit 8 (ucast a) XOR push_bit 8 (ucast c) = (ucast b XOR ucast d :: u16)"
    by (simp only: crc_shifts_inj) (auto simp: bit_eq_iff bit_xor_iff)
  have "bit a n = bit c n \<and> bit b n = bit d n" if "n < 8" for n
    using that arg_cong [of _ _ "\<lambda>v. bit v n", OF eq] arg_cong [of _ _ "\<lambda>v. bit v (8 + n)", OF eq]
    by (auto simp: bit_xor_iff bit_push_bit_iff bit_ucast_iff dest: bit_imp_le_length)
  then show ?thesis by (auto intro: bit_word_eqI)
qed

text \<open>One character of the text lies within two neighbouring bytes.\<close>

lemma nth_concat_same:
  assumes "\<And>x. length (f x) = k" "i < length xs" "r < k"
  shows "concat (map f xs) ! (k * i + r) = f (xs ! i) ! r"
  using assms(2)
proof (induction xs arbitrary: i)
  case (Cons x xs)
  then show ?case
    using assms(1,3) by (cases i) (auto simp: nth_append add.assoc)
qed simp

lemma byte_of_text:
  assumes "data_bits bs @ rest = text_bits s" "data_bits cs @ rest' = text_bits t"
    "length s = length t" "length bs = length cs" "j < length bs"
    "\<And>m. m < length s \<Longrightarrow> m \<noteq> i \<Longrightarrow> s ! m = t ! m"
    "5 * i + 5 \<le> 8 * j \<or> 8 * j + 8 \<le> 5 * i"
  shows "bs ! j = cs ! j"
proof -
  have "low 8 (bs ! j) ! r = low 8 (cs ! j) ! r" if "r < 8" for r
  proof -
    define n where "n = 8 * j + r"
    have len: "8 * length bs + length rest = 5 * length s"
      using arg_cong [of _ _ length, OF assms(1)] by simp
    have n: "n < 8 * length bs" "n < 5 * length s" "n div 5 < length s" "n div 5 \<noteq> i"
      using assms(5,7) that len by (auto simp: n_def)
    have digit: "text_bits u ! n = digit_bits (u ! (n div 5)) ! (n mod 5)" if "length u = length s" for u
      using nth_concat_same [of digit_bits 5 "n div 5" u "n mod 5"] n(3) that
      by (simp add: text_bits_def)
    have data: "data_bits u ! n = low 8 (u ! j) ! r" if "length u = length bs" for u
      using nth_concat_same [of "low 8" 8 j u r] assms(5) that \<open>r < 8\<close>
      by (simp add: data_bits_def n_def)
    have "low 8 (bs ! j) ! r = text_bits s ! n"
      using n(1) by (simp add: data [symmetric] assms(1) [symmetric] nth_append)
    also have "\<dots> = text_bits t ! n"
      using assms(3) assms(6) [OF n(3,4)] by (simp add: digit)
    also have "\<dots> = low 8 (cs ! j) ! r"
      using n(1) assms(4) by (simp add: data [symmetric] assms(2) [symmetric] nth_append)
    finally show ?thesis .
  qed
  then have "low 8 (bs ! j) = low 8 (cs ! j)"
    by (intro nth_equalityI) simp_all
  then show ?thesis
    by (simp add: low_inj [where 'a = 8, simplified])
qed

lemma mistyped_crc:
  assumes "base32_decode s = Some bs" "base32_decode (s[i := c]) = Some cs"
    "length bs = length cs" "2 \<le> length bs" "i < length s" "crc16 bs = crc16 cs"
  shows "bs = cs"
proof -
  obtain rest rest' where bits: "data_bits bs @ rest = text_bits s" "data_bits cs @ rest' = text_bits (s[i := c])"
    using assms(1,2) by (auto simp: base32_decode_iff)
  define k where "k = min (5 * i div 8) (length bs - 2)"
  have same: "bs ! j = cs ! j" if "j < length bs" "j \<noteq> k" "j \<noteq> Suc k" for j
  proof (rule byte_of_text [OF bits _ assms(3) that(1), where i = i])
    show "5 * i + 5 \<le> 8 * j \<or> 8 * j + 8 \<le> 5 * i"
      using that assms(4) by (auto simp: k_def min_def split: if_splits)
  qed auto
  have k: "Suc k < length bs"
    using assms(4) by (auto simp: k_def)
  have halves: "u = take k u @ u ! k # u ! Suc k # drop (Suc (Suc k)) u" if "length u = length bs" for u :: bytes
    using k that by (simp add: id_take_nth_drop Cons_nth_drop_Suc)
  have "take k bs = take k cs" "drop (Suc (Suc k)) bs = drop (Suc (Suc k)) cs"
    using same k assms(3) by (auto intro!: nth_equalityI)
  with halves [OF refl] halves [of cs] assms(3,6) have
    "crc16 (take k bs @ bs ! k # bs ! Suc k # drop (Suc (Suc k)) bs)
      = crc16 (take k bs @ cs ! k # cs ! Suc k # drop (Suc (Suc k)) bs)"
    by simp
  from crc_pair [OF this] same assms(3) show ?thesis
    by (intro nth_equalityI) auto
qed

section \<open>What parses\<close>

lemma be_bytes_iff: "u16_from_be_bytes a b = w \<longleftrightarrow> [a, b] = u16_to_be_bytes w"
proof
  assume "u16_from_be_bytes a b = w"
  moreover have "\<not> bit b (8 + n)" for n
    using bit_imp_le_length [of b "8 + n"] by auto
  ultimately show "[a, b] = u16_to_be_bytes w"
    by (auto simp: u16_from_be_bytes_def u16_to_be_bytes_def bit_or_iff bit_push_bit_iff bit_ucast_iff
        bit_drop_bit_eq intro!: bit_word_eqI dest: bit_imp_le_length)
next
  assume "[a, b] = u16_to_be_bytes w"
  then show "u16_from_be_bytes a b = w"
    by (auto simp: u16_from_be_bytes_def u16_to_be_bytes_def bit_or_iff bit_push_bit_iff bit_ucast_iff
        bit_drop_bit_eq intro!: bit_word_eqI)
qed

lemma legal_texts:
  assumes "set s \<subseteq> set ALPHABET" "length bs = 5 * length s div 8" "text_bits s = data_bits bs @ rest"
  shows "base32_decode s = Some bs"
proof -
  have "5 * length s = 8 * length bs + length rest"
    using arg_cong [of _ _ length, OF assms(3)] by simp
  with assms(2) have "length rest < 8" by linarith
  with assms show ?thesis by (auto simp: base32_decode_iff)
qed

lemma legal_decodes:
  assumes "set s \<subseteq> set ALPHABET"
  obtains bs rest where "base32_decode s = Some bs" "length bs = 5 * length s div 8"
    "text_bits s = data_bits bs @ rest"
proof -
  obtain bs rest where bits: "base32_decode s = Some bs" "length rest < 8" "text_bits s = data_bits bs @ rest"
    using assms base32_pull_bits [where s = s and buffer = 0 and bits = 0 and out = "[]"]
    by (auto simp: base32_decode_def split: option.splits)
  have "5 * length s = 8 * length bs + length rest"
    using arg_cong [of _ _ length, OF bits(3)] by simp
  with bits(2) have "length bs = 5 * length s div 8" by linarith
  with bits that show ?thesis by blast
qed

lemma alphabet_ascii: "set s \<subseteq> set ALPHABET \<Longrightarrow> ascii s"
proof -
  have "list_all (\<lambda>c. (of_char c :: nat) < 128) ALPHABET"
    by code_simp
  then show "set s \<subseteq> set ALPHABET \<Longrightarrow> ascii s"
    by (auto simp: ascii_def list_all_iff)
qed

text \<open>The verdict on a normalized text of 36 characters of the alphabet.\<close>

definition verdict :: "string \<Rightarrow> bytes \<Rightarrow> bytes \<Rightarrow> bool" where
  "verdict norm payload check \<longleftrightarrow>
     length payload = 20 \<and> length check = 2 \<and> take 176 (text_bits norm) = data_bits (payload @ check)"

lemma parse_legal:
  assumes "length (normalized input) = 36" "set (normalized input) \<subseteq> set ALPHABET"
  obtains payload check where "verdict (normalized input) payload check"
    "base32_decode (take 32 (normalized input)) = Some payload"
    "base32_decode (drop 32 (normalized input)) = Some check"
    "code_parse input = Returned
       (if check = u16_to_be_bytes (crc16 payload) then Inr payload else Inl ChecksumMismatch)"
proof -
  define norm where "norm = normalized input"
  have sub: "set (take 32 norm) \<subseteq> set ALPHABET" "set (drop 32 norm) \<subseteq> set ALPHABET"
    using assms(2) set_take_subset [of 32 norm] set_drop_subset [of 32 norm] by (auto simp: norm_def)
  obtain payload rest where payload: "base32_decode (take 32 norm) = Some payload" "length payload = 20"
    "text_bits (take 32 norm) = data_bits payload @ rest"
    using legal_decodes [OF sub(1)] assms(1) by (auto simp: norm_def)
  obtain check rest' where check: "base32_decode (drop 32 norm) = Some check" "length check = 2"
    "text_bits (drop 32 norm) = data_bits check @ rest'"
    using legal_decodes [OF sub(2)] assms(1) by (auto simp: norm_def)
  have "rest = []"
    using arg_cong [of _ _ length, OF payload(3)] assms(1) payload(2) by (simp add: norm_def)
  have "text_bits norm = text_bits (take 32 norm) @ text_bits (drop 32 norm)"
    by (simp flip: text_bits_simps(3))
  then have "verdict norm payload check"
    using payload(2,3) check(2,3) \<open>rest = []\<close> by (simp add: verdict_def)
  moreover have "split_at norm 32 = Returned (take 32 norm, drop 32 norm)"
    using assms by (simp add: split_at_def ascii_boundary alphabet_ascii norm_def)
  moreover obtain a b where "check = [a, b]"
    using check(2) by (auto simp: length_Suc_conv numeral_2_eq_2)
  ultimately show ?thesis
    using that [of payload check] payload check assms(1)
    by (auto simp: code_parse_def norm_def [symmetric] RECOVERY_ENTROPY_BYTES_def be_bytes_iff)
qed

lemma parse_accepts:
  assumes "code_parse input = Returned (Inr code)"
  shows "length (normalized input) = 36 \<and> set (normalized input) \<subseteq> set ALPHABET"
proof -
  define norm where "norm = normalized input"
  from assms have "length norm = 36" "base32_decode (take 32 norm) \<noteq> None" "base32_decode (drop 32 norm) \<noteq> None"
    by (auto simp: code_parse_def norm_def split_at_def Let_def split: if_splits option.splits)
  then have "set (take 32 norm) \<union> set (drop 32 norm) \<subseteq> set ALPHABET"
    by (auto simp: base32_decode_iff)
  then have "set (take 32 norm @ drop 32 norm) \<subseteq> set ALPHABET"
    by (simp only: set_append)
  with \<open>length norm = 36\<close> show ?thesis
    by (simp add: norm_def)
qed

lemma verdict_unique: "verdict s p c \<Longrightarrow> verdict s q d \<Longrightarrow> p = q \<and> c = d"
  using data_bits_inj [of "p @ c" "q @ d"] by (auto simp: verdict_def simp del: data_bits_simps)

lemma code_parse_iff:
  "code_parse input = Returned (Inr code) \<longleftrightarrow>
     length (normalized input) = 36 \<and> set (normalized input) \<subseteq> set ALPHABET
   \<and> verdict (normalized input) code (u16_to_be_bytes (crc16 code))"
proof (cases "length (normalized input) = 36 \<and> set (normalized input) \<subseteq> set ALPHABET")
  case True
  then obtain payload check where "verdict (normalized input) payload check"
    "code_parse input = Returned
       (if check = u16_to_be_bytes (crc16 payload) then Inr payload else Inl ChecksumMismatch)"
    using parse_legal by metis
  with True verdict_unique [of "normalized input" payload check code] show ?thesis
    by auto
qed (use parse_accepts in blast)

section \<open>Printing and typing\<close>

lemma normal_char_alphabet: "c \<in> set ALPHABET \<Longrightarrow> normal_char [c] = [c]"
proof -
  have "list_all (\<lambda>c. normal_char [c] = [c]) ALPHABET"
    by code_simp
  then show "c \<in> set ALPHABET \<Longrightarrow> normal_char [c] = [c]"
    by (simp add: list_all_iff)
qed

lemma normal_char_dash [simp]: "normal_char ''-'' = []"
  by (simp add: normal_char_def)

lemma dash_not_in_alphabet: "CHR ''-'' \<notin> set ALPHABET"
  by (simp add: ALPHABET_def)

lemma normal_char_ascii:
  assumes "(of_char c :: nat) < 128"
  shows "ascii (normal_char [c])" "length (normal_char [c]) \<le> 1"
  using assms by (auto simp: normal_char_def ascii_uppercase_def Let_def)

lemma normalized_ascii: "ascii s \<Longrightarrow> normalized s = concat (map (\<lambda>c. normal_char [c]) s)"
  by (simp add: normalized_def chars_ascii o_def)

lemma normalized_append:
  "ascii (s @ t) \<Longrightarrow> normalized (s @ t) = normalized s @ normalized t"
  by (simp add: normalized_ascii)

lemma normalized_Cons: "ascii (c # s) \<Longrightarrow> normalized (c # s) = normal_char [c] @ normalized s"
  by (simp add: normalized_ascii)

lemma ascii_normalized: "ascii s \<Longrightarrow> ascii (normalized s)"
  by (induction s) (auto simp: normalized_ascii normal_char_ascii)

definition dashed :: "string \<Rightarrow> bool" where
  "dashed s \<longleftrightarrow> set s \<subseteq> insert (CHR ''-'') (set ALPHABET)"

lemma dashed_ascii: "dashed s \<Longrightarrow> ascii s"
proof (induction s)
  case (Cons c s)
  then have "c = CHR ''-'' \<or> set [c] \<subseteq> set ALPHABET" "dashed s"
    by (auto simp: dashed_def)
  with Cons alphabet_ascii [of "[c]"] show ?case by auto
qed simp

lemma normalized_dashed: "dashed s \<Longrightarrow> normalized s = filter (\<lambda>c. c \<noteq> CHR ''-'') s"
proof (induction s)
  case (Cons c s)
  then have "ascii (c # s)" "dashed s"
    using dashed_ascii [of "c # s"] by (auto simp: dashed_def)
  with Cons show ?case
    by (auto simp: normalized_ascii normal_char_alphabet dashed_def)
qed (simp add: normalized_def)

lemma filter_grouped:
  "set s \<subseteq> set ALPHABET \<Longrightarrow> filter (\<lambda>c. c \<noteq> CHR ''-'') (grouped i s) = s"
  using dash_not_in_alphabet by (induction i s rule: grouped.induct) auto

lemma set_grouped: "set (grouped i s) \<subseteq> insert (CHR ''-'') (set s)"
  by (induction i s rule: grouped.induct) auto

definition printed_check :: "RecoveryCode \<Rightarrow> string" where
  "printed_check code = base32_encode (u16_to_be_bytes (crc16 code))"

lemma code_format_dashed: "dashed (code_format code)"
  using set_grouped [of 0 "base32_encode code"] base32_encode_bits(2)
  unfolding code_format_def dashed_def by fastforce

lemma code_format_nth:
  "i < length (code_format code) \<Longrightarrow> code_format code ! i \<noteq> CHR ''-'' \<Longrightarrow> code_format code ! i \<in> set ALPHABET"
  using code_format_dashed [of code] nth_mem [of i "code_format code"] unfolding dashed_def by blast

lemma normalized_format: "normalized (code_format code) = base32_encode code @ printed_check code"
proof -
  have "filter (\<lambda>c. c \<noteq> CHR ''-'') (printed_check code) = printed_check code"
    using base32_encode_bits(2) dash_not_in_alphabet
    by (auto simp: printed_check_def filter_id_conv)
  then show ?thesis
    by (simp add: normalized_dashed code_format_dashed)
      (simp add: code_format_def filter_grouped base32_encode_bits printed_check_def)
qed

lemma printed_texts:
  assumes "recovery_code code"
  shows "length (base32_encode code) = 32" "length (printed_check code) = 4"
    "verdict (base32_encode code @ printed_check code) code (u16_to_be_bytes (crc16 code))"
proof -
  show "length (base32_encode code) = 32" "length (printed_check code) = 4"
    using assms
    by (simp_all add: length_base32_encode recovery_code_def RECOVERY_ENTROPY_BYTES_def padding_def
        printed_check_def u16_to_be_bytes_def)
  show "verdict (base32_encode code @ printed_check code) code (u16_to_be_bytes (crc16 code))"
    using assms
    by (simp add: verdict_def base32_encode_bits printed_check_def recovery_code_def
        RECOVERY_ENTROPY_BYTES_def padding_def u16_to_be_bytes_def)
qed

lemma parse_printed:
  assumes "recovery_code code" "normalized input = base32_encode code @ printed_check code"
  shows "code_parse input = Returned (Inr code)"
  using assms printed_texts [OF assms(1)] base32_encode_bits(2)
  by (auto simp: code_parse_iff printed_check_def)

text \<open>
  The spellings of a character that a reader may write down: either case, and the letters that look
  like a digit.
\<close>

definition spellings :: "char \<Rightarrow> string" where
  "spellings c =
     (if c = CHR ''0'' then ''0Oo'' else if c = CHR ''1'' then ''1IiLl''
      else if 65 \<le> (of_char c :: nat) then [c, char_of ((of_char c :: nat) + 32)] else [c])"

text \<open>A transcript: characters in any spelling, dashes left out, dashes and blanks put in.\<close>

inductive transcript :: "string \<Rightarrow> string \<Rightarrow> bool" where
  transcript_Nil: "transcript [] []"
| transcript_char: "c \<noteq> CHR ''-'' \<Longrightarrow> d \<in> set (spellings c) \<Longrightarrow> transcript s t \<Longrightarrow> transcript (c # s) (d # t)"
| transcript_omit: "transcript s t \<Longrightarrow> transcript (CHR ''-'' # s) t"
| transcript_insert: "d \<in> set '' -'' \<or> d = char_of (9 :: nat) \<or> d = char_of (10 :: nat)
    \<Longrightarrow> transcript s t \<Longrightarrow> transcript s (d # t)"

lemma spellings_normal: "c \<in> set ALPHABET \<Longrightarrow> d \<in> set (spellings c) \<Longrightarrow> (of_char d :: nat) < 128 \<and> normal_char [d] = [c]"
proof -
  have "list_all (\<lambda>c. list_all (\<lambda>d. (of_char d :: nat) < 128 \<and> normal_char [d] = [c]) (spellings c)) ALPHABET"
    by code_simp
  then show "c \<in> set ALPHABET \<Longrightarrow> d \<in> set (spellings c) \<Longrightarrow> (of_char d :: nat) < 128 \<and> normal_char [d] = [c]"
    by (simp add: list_all_iff)
qed

lemma separator_normal:
  assumes "d \<in> set '' -'' \<or> d = char_of (9 :: nat) \<or> d = char_of (10 :: nat)"
  shows "(of_char d :: nat) < 128" "normal_char [d] = []"
proof -
  have "list_all (\<lambda>d. (of_char d :: nat) < 128 \<and> normal_char [d] = []) ('' -'' @ map char_of [9 :: nat, 10])"
    by code_simp
  with assms show "(of_char d :: nat) < 128" "normal_char [d] = []"
    by auto
qed

lemma transcript_normalized:
  "transcript s t \<Longrightarrow> dashed s \<Longrightarrow> ascii t \<and> normalized t = normalized s"
proof (induction rule: transcript.induct)
  case (transcript_char c d s t)
  then have "c \<in> set ALPHABET" "dashed s"
    by (auto simp: dashed_def)
  with transcript_char spellings_normal [of c d] dashed_ascii [of "c # s"] show ?case
    by (simp add: normalized_Cons normal_char_alphabet)
next
  case (transcript_omit s t)
  then have "dashed s" by (simp add: dashed_def)
  with transcript_omit dashed_ascii [of s] show ?case
    by (simp add: normalized_Cons)
next
  case (transcript_insert d s t)
  with separator_normal [of d] show ?case
    by (simp add: normalized_Cons)
qed simp

lemma retyped_normal:
  assumes "i < length (code_format code)" "(of_char d :: nat) < 128"
  obtains u v where "normalized (code_format code) = u @ normal_char [code_format code ! i] @ v"
    "normalized ((code_format code)[i := d]) = u @ normal_char [d] @ v"
    "u = filter (\<lambda>c. c \<noteq> CHR ''-'') (take i (code_format code))"
    "ascii (normalized ((code_format code)[i := d]))"
proof -
  define f where "f = code_format code"
  have f: "f = take i f @ [f ! i] @ drop (Suc i) f" "f[i := d] = take i f @ [d] @ drop (Suc i) f"
    using assms(1) by (simp_all add: f_def id_take_nth_drop upd_conv_take_nth_drop)
  have dashed: "dashed f" "dashed (take i f)" "dashed (drop (Suc i) f)"
    using code_format_dashed [of code] set_take_subset [of i f] set_drop_subset [of "Suc i" f]
    by (auto simp: dashed_def f_def)
  then have ascii: "ascii f" "ascii (take i f)" "ascii (drop (Suc i) f)"
    by (simp_all add: dashed_ascii)
  have one: "normalized [c] = normal_char [c]" if "(of_char c :: nat) < 128" for c
    using that by (simp add: normalized_ascii)
  have fi: "(of_char (f ! i) :: nat) < 128"
    using ascii(1) assms(1) by (simp add: ascii_def list_all_length f_def)
  have "normalized f = normalized (take i f) @ normal_char [f ! i] @ normalized (drop (Suc i) f)"
    using ascii fi f(1) by (metis ascii_simps(1,2) ascii_simps(3) normalized_append one)
  moreover have "normalized (f[i := d]) = normalized (take i f) @ normal_char [d] @ normalized (drop (Suc i) f)"
    unfolding f(2) using ascii assms(2) by (simp add: normalized_append one del: append_Cons append_Nil)
  moreover have "ascii (f[i := d])"
    unfolding f(2) using ascii assms(2) by simp
  then have "ascii (normalized (f[i := d]))"
    by (rule ascii_normalized)
  moreover have "normalized (take i f) = filter (\<lambda>c. c \<noteq> CHR ''-'') (take i f)"
    using dashed(2) by (rule normalized_dashed)
  ultimately show ?thesis
    using that unfolding f_def by blast
qed

lemma parse_ascii:
  assumes "ascii (normalized input)"
  shows "code_parse input \<noteq> Panicked"
  using assms
  by (auto simp: code_parse_def Let_def split_at_def ascii_boundary split: option.splits)

text \<open>A text that differs in one place from the printed one.\<close>

lemma parse_one_changed:
  assumes "recovery_code code" "j < 36"
    "normalized input = (base32_encode code @ printed_check code)[j := e]"
    "code_parse input = Returned (Inr found)"
  shows "found = code \<and> (32 \<le> j \<or> e = base32_encode code ! j)"
proof -
  note printed = printed_texts [OF assms(1)]
  let ?s = "base32_encode code"
  obtain check where accepted: "base32_decode (take 32 (normalized input)) = Some found"
    "verdict (normalized input) found (u16_to_be_bytes (crc16 found))"
    "base32_decode (drop 32 (normalized input)) = Some check"
    "check = u16_to_be_bytes (crc16 found)"
    using parse_accepts [OF assms(4)] assms(4)
    by (auto elim!: parse_legal [of input] split: if_splits)
  have len: "length code = 20" "length found = 20"
    using assms(1) accepted(2) by (auto simp: recovery_code_def RECOVERY_ENTROPY_BYTES_def verdict_def)
  show ?thesis
  proof (cases "j < 32")
    case True
    then have parts: "take 32 (normalized input) = ?s[j := e]" "drop 32 (normalized input) = printed_check code"
      using assms(3) printed by (simp_all add: list_update_append)
    have "u16_to_be_bytes (crc16 code) = u16_to_be_bytes (crc16 found)"
      using accepted(3,4) parts(2) by (simp add: printed_check_def base32_roundtrip)
    then have "crc16 code = crc16 found"
      by (metis be_bytes_iff u16_to_be_bytes_def)
    then have "code = found"
      using mistyped_crc [OF base32_roundtrip [of code], of j e found] accepted(1) parts(1) len printed True
      by simp
    moreover from this have "base32_encode code = ?s[j := e]"
      using base32_encode_decoded [OF accepted(1)] parts(1) len printed(1) by simp
    ultimately show ?thesis
      using True printed(1) by (metis nth_list_update_eq)
  next
    case False
    then have "take 32 (normalized input) = ?s"
      using assms(3) printed by (simp add: list_update_append)
    with accepted(1) False show ?thesis
      by (simp add: base32_roundtrip)
  qed
qed

lemma length_grouped:
  "length (grouped i s) = length s + length (filter (\<lambda>k. 0 < k \<and> k mod 4 = 0) [i..<i + length s])"
proof (induction i s rule: grouped.induct)
  case (2 i ch chs)
  have "[i..<i + length (ch # chs)] = i # [Suc i..<Suc i + length chs]"
    by (simp add: upt_conv_Cons del: upt_Suc)
  with 2 show ?case by simp
qed simp

lemma payload_position:
  assumes "recovery_code code" "i < 39" "code_format code ! i \<noteq> CHR ''-''"
  shows "length (filter (\<lambda>c. c \<noteq> CHR ''-'') (take i (code_format code))) < 32"
proof -
  let ?g = "grouped 0 (base32_encode code)"
  have len: "length ?g = 39"
    using printed_texts(1) [OF assms(1)] by (simp add: length_grouped upt_rec)
  then have same: "take i (code_format code) = take i ?g" "code_format code ! i = ?g ! i"
    using assms(2) by (simp_all add: code_format_def nth_append)
  have "filter (\<lambda>c. c \<noteq> CHR ''-'') ?g = base32_encode code"
    by (rule filter_grouped [OF base32_encode_bits(2)])
  moreover have "?g = take i ?g @ ?g ! i # drop (Suc i) ?g"
    using assms(2) len by (simp add: id_take_nth_drop)
  ultimately have "32 = length (filter (\<lambda>c. c \<noteq> CHR ''-'') (take i ?g @ ?g ! i # drop (Suc i) ?g))"
    using printed_texts(1) [OF assms(1)] by simp
  then show ?thesis
    using assms(3) same by simp
qed

text \<open>A way to copy: no dashes, and the last spelling of each character.\<close>

definition careless :: "string \<Rightarrow> string" where
  "careless s = map (\<lambda>c. last (spellings c)) (filter (\<lambda>c. c \<noteq> CHR ''-'') s)"

lemma transcript_careless: "transcript s (careless s)"
proof (induction s)
  case (Cons c s)
  have "spellings c \<noteq> []"
    by (simp add: spellings_def)
  then have "last (spellings c) \<in> set (spellings c)"
    by simp
  with Cons show ?case
    by (cases "c = CHR ''-''") (auto simp: careless_def intro: transcript.intros)
qed (simp add: careless_def transcript_Nil)

definition sample_code :: RecoveryCode where
  "sample_code = map word_of_nat [0..<20]"

section \<open>Properties\<close>

text \<open>
  C30. Base32 is the regrouping of bits. The bits of the encoded text are those of the data and
  fewer than five zeros; a text decodes if and only if all its characters are in the alphabet, and
  then to the bytes whose bits begin its bits, up to fewer than eight bits that are dropped; and
  decoding inverts encoding, for data of every length.
\<close>

theorem base32_regroups_bits:
  "text_bits (base32_encode bs) = data_bits bs @ replicate (padding (length bs)) False
   \<and> set (base32_encode bs) \<subseteq> set ALPHABET \<and> padding (length bs) < 5
   \<and> (base32_decode s = Some bs \<longleftrightarrow>
        set s \<subseteq> set ALPHABET \<and> (\<exists>rest. length rest < 8 \<and> text_bits s = data_bits bs @ rest))
   \<and> base32_decode (base32_encode bs) = Some bs"
  using base32_encode_bits base32_decode_iff base32_roundtrip by (simp add: padding_def)

text \<open>
  C31. A printed code survives its transcription. Whatever way the 44 printed characters are copied,
  in either case, with look-alike letters for the digits zero and one, with dashes left out and with
  dashes and blanks put in anywhere, the copy parses to the code that was printed.
\<close>

theorem transcript_parses:
  assumes "recovery_code code" "transcript (code_format code) input"
  shows "code_parse input = Returned (Inr code)"
  using transcript_normalized [OF assms(2) code_format_dashed] assms(1)
  by (simp add: parse_printed normalized_format)

theorem transcript_parses_witness:
  "recovery_code sample_code \<and> transcript (code_format sample_code) (careless (code_format sample_code))
   \<and> code_parse (careless (code_format sample_code)) = Returned (Inr sample_code)"
proof -
  have "recovery_code sample_code"
    by code_simp
  then show ?thesis
    using transcript_parses [of sample_code "careless (code_format sample_code)"]
      transcript_careless [of "code_format sample_code"]
    by simp
qed

text \<open>
  C32. A mistyped character never gives another code. When one of the printed characters is replaced
  by any ASCII character, parsing returns, and it returns the same code or an error; when the
  replaced character belongs to the payload and the new one is not a spelling of it, it returns an
  error.
\<close>

theorem mistyped_character_detected:
  assumes "recovery_code code" "i < length (code_format code)" "(of_char d :: nat) < 128"
  shows "code_parse ((code_format code)[i := d]) \<noteq> Panicked
    \<and> (code_parse ((code_format code)[i := d]) = Returned (Inr found) \<longrightarrow> found = code)
    \<and> (i < 39 \<and> code_format code ! i \<noteq> CHR ''-'' \<and> normal_char [d] \<noteq> [code_format code ! i]
        \<longrightarrow> code_parse ((code_format code)[i := d]) \<noteq> Returned (Inr found))"
proof -
  let ?f = "code_format code" and ?input = "(code_format code)[i := d]"
  obtain u v where uv: "base32_encode code @ printed_check code = u @ normal_char [?f ! i] @ v"
    "normalized ?input = u @ normal_char [d] @ v"
    "u = filter (\<lambda>c. c \<noteq> CHR ''-'') (take i ?f)" "ascii (normalized ?input)"
    using retyped_normal [OF assms(2,3)] normalized_format by metis
  have total: "length (u @ normal_char [?f ! i] @ v) = 36"
    using printed_texts [OF assms(1)] uv(1) by (metis length_append numeral_plus_numeral semiring_norm(2,6,8) add_num_simps)
  have kept: "found = code" if "code_parse ?input = Returned (Inr found)" "normal_char [d] = normal_char [?f ! i]"
    using that uv(1,2) parse_printed [OF assms(1), of ?input] by simp
  have changed: "normal_char [?f ! i] = [?f ! i] \<and> found = code \<and> 32 \<le> length u"
    if ok: "code_parse ?input = Returned (Inr found)" and new: "normal_char [d] \<noteq> normal_char [?f ! i]"
  proof -
    have "length (normal_char [d]) = length (normal_char [?f ! i])"
      using parse_accepts [OF ok] total uv(2) by simp
    moreover from this new have "normal_char [d] \<noteq> []" "?f ! i \<noteq> CHR ''-''"
      by auto
    ultimately obtain e where e: "normal_char [d] = [e]" "?f ! i \<noteq> CHR ''-''"
      using normal_char_ascii(2) [OF assms(3)] by (cases "normal_char [d]"; cases "tl (normal_char [d])") auto
    then have fi: "normal_char [?f ! i] = [?f ! i]"
      using assms(2) by (intro normal_char_alphabet code_format_nth)
    then have "normalized ?input = (base32_encode code @ printed_check code)[length u := e]"
      "(base32_encode code @ printed_check code) ! length u = ?f ! i" "length u < 36"
      using uv(1,2) e(1) total by simp_all
    from parse_one_changed [OF assms(1) this(3) this(1) ok] this(2) new e(1) fi printed_texts(1) [OF assms(1)]
    show ?thesis by (cases "length u < 32") (auto simp: nth_append)
  qed
  show ?thesis
    using kept changed parse_ascii [OF uv(4)] payload_position [OF assms(1), of i] uv(3)
      normal_char_alphabet [OF code_format_nth [OF assms(2)]]
    by auto
qed

theorem mistyped_character_detected_witness:
  "recovery_code sample_code \<and> code_format sample_code ! 0 = CHR ''0''
   \<and> code_parse ((code_format sample_code)[0 := CHR ''7'']) \<noteq> Panicked
   \<and> code_parse ((code_format sample_code)[0 := CHR ''7'']) \<noteq> Returned (Inr sample_code)"
proof -
  have code: "recovery_code sample_code"
    by code_simp
  have "base32_encode sample_code = CHR ''0'' # tl (base32_encode sample_code)"
    by code_simp
  then obtain chs where "base32_encode sample_code = CHR ''0'' # chs"
    by blast
  then have first: "code_format sample_code ! 0 = CHR ''0'' \<and> 0 < length (code_format sample_code)"
    by (simp add: code_format_def)
  have seven: "normal_char ''7'' = ''7'' \<and> (of_char (CHR ''7'') :: nat) < 128"
    by code_simp
  have zero: "CHR ''0'' \<noteq> CHR ''-''" "''7'' \<noteq> ''0''"
    by simp_all
  note detected = mistyped_character_detected [OF code first [THEN conjunct2] seven [THEN conjunct2], of sample_code]
  show ?thesis
    using detected code first seven zero by (metis zero_less_numeral)
qed

text \<open>
  C33. Exactly what parses. A text is accepted as a code if and only if, without separators and in
  upper case, it consists of 36 characters of the alphabet whose first 176 bits are the code and its
  checksum: the last four bits are ignored. Parsing panics if and only if the text without
  separators has 36 bytes of which the one after the payload is inside a character.
\<close>

theorem code_parses_exactly:
  "(code_parse input = Returned (Inr code) \<longleftrightarrow>
      recovery_code code \<and> length (normalized input) = 36 \<and> set (normalized input) \<subseteq> set ALPHABET
    \<and> take 176 (text_bits (normalized input)) = data_bits (code @ u16_to_be_bytes (crc16 code)))
   \<and> (code_parse input = Panicked \<longleftrightarrow>
      length (normalized input) = 36 \<and> continuation (normalized input ! 32))"
  by (auto simp: code_parse_iff verdict_def recovery_code_def RECOVERY_ENTROPY_BYTES_def u16_to_be_bytes_def)
    (auto simp: code_parse_def Let_def split_at_def is_char_boundary_def split: option.splits if_splits)

end
