(* ===== verification/Lease_Engine.thy ===== *)
theory Lease_Engine
  imports Vesta_Prelude "HOL-Library.AList" "HOL-Library.Multiset"
begin

text \<open>
  The lease and session bookkeeping of the transport crate,
  \<^verbatim>\<open>src/services/vesta-transport/src/lease.rs\<close>. A session groups the leases that were issued during
  it; ending it, or letting it expire, revokes them. The two hash maps are association lists; the
  order in which a hash map yields its values is unspecified, so the sweep takes it as a parameter,
  and the identifier generator is a parameter as well. The lemmas show that every call keeps the
  engine well formed, that no sequence of renewals extends a lease past its limit, and that a sweep
  revokes and reports exactly the leases that must die.
\<close>

section \<open>State\<close>

record Session =
  se_id :: string
  se_expires_at :: u64
  se_idle_deadline :: u64
  se_idle_timeout_secs :: u64
  se_children :: "string list"
  se_ended :: bool

record Lease =
  le_id :: string
  le_parent_session :: string
  le_expires_at :: u64
  le_max_deadline :: u64
  le_renewable :: bool
  le_revoked :: bool

record SessionInfo =
  si_id :: string
  si_expires_at :: u64
  si_idle_deadline :: u64
  si_child_count :: nat

record Swept =
  sw_ended_sessions :: "string list"
  sw_revoked_leases :: "string list"

definition swept_is_empty :: "Swept \<Rightarrow> bool" where
  "swept_is_empty s \<longleftrightarrow> sw_ended_sessions s = [] \<and> sw_revoked_leases s = []"

datatype LeaseError =
    NoSuchSession
  | NoSuchLease
  | SessionEnded
  | NotRenewable
  | AlreadyRevoked

text \<open>
  The generator is a function of the number of identifiers drawn before; \<open>en_drawn\<close> counts them.
\<close>

record LeaseEngine =
  en_sessions :: "(string \<times> Session) list"
  en_leases :: "(string \<times> Lease) list"
  en_drawn :: nat

text \<open>The orders in which the two maps yield their values.\<close>

record iteration =
  it_sessions :: "Session list \<Rightarrow> Session list"
  it_leases :: "Lease list \<Rightarrow> Lease list"

definition iterates :: "iteration \<Rightarrow> bool" where
  "iterates it \<longleftrightarrow> (\<forall>ss. mset (it_sessions it ss) = mset ss) \<and> (\<forall>ls. mset (it_leases it ls) = mset ls)"

definition engine_new :: LeaseEngine where
  "engine_new = \<lparr>en_sessions = [], en_leases = [], en_drawn = 0\<rparr>"

section \<open>Operations\<close>

definition put_session :: "string \<Rightarrow> Session \<Rightarrow> LeaseEngine \<Rightarrow> LeaseEngine" where
  "put_session k s e = e\<lparr>en_sessions := AList.update k s (en_sessions e)\<rparr>"

definition put_lease :: "string \<Rightarrow> Lease \<Rightarrow> LeaseEngine \<Rightarrow> LeaseEngine" where
  "put_lease k l e = e\<lparr>en_leases := AList.update k l (en_leases e)\<rparr>"

definition open_session ::
  "(nat \<Rightarrow> string) \<Rightarrow> u64 \<Rightarrow> u64 \<Rightarrow> u64 \<Rightarrow> LeaseEngine \<Rightarrow> string \<times> LeaseEngine" where
  "open_session gen now ttl_secs idle_timeout_secs e =
     (let i = gen (en_drawn e) in
      (i, put_session i
            \<lparr>se_id = i,
             se_expires_at = saturating_add now ttl_secs,
             se_idle_deadline = saturating_add now idle_timeout_secs,
             se_idle_timeout_secs = idle_timeout_secs,
             se_children = [],
             se_ended = False\<rparr>
            (e\<lparr>en_drawn := Suc (en_drawn e)\<rparr>)))"

definition session_live :: "Session \<Rightarrow> u64 \<Rightarrow> bool" where
  "session_live s now \<longleftrightarrow> \<not> se_ended s \<and> now < se_expires_at s \<and> now < se_idle_deadline s"

definition touch :: "Session \<Rightarrow> u64 \<Rightarrow> Session" where
  "touch s now = s\<lparr>se_idle_deadline := min (saturating_add now (se_idle_timeout_secs s)) (se_expires_at s)\<rparr>"

definition issue_lease ::
  "(nat \<Rightarrow> string) \<Rightarrow> u64 \<Rightarrow> string \<Rightarrow> u64 \<Rightarrow> u64 \<Rightarrow> bool \<Rightarrow> LeaseEngine
     \<Rightarrow> (LeaseError + string) \<times> LeaseEngine" where
  "issue_lease gen now session ttl_secs max_ttl_secs renewable e =
     (case map_of (en_sessions e) session of
        None \<Rightarrow> (Inl NoSuchSession, e)
      | Some s \<Rightarrow>
          if \<not> session_live s now then (Inl SessionEnded, e)
          else
            let s = touch s now;
                max_deadline = min (saturating_add now max_ttl_secs) (se_expires_at s);
                expires_at = min (saturating_add now ttl_secs) max_deadline;
                i = gen (en_drawn e);
                e = put_lease i
                      \<lparr>le_id = i, le_parent_session = session, le_expires_at = expires_at,
                       le_max_deadline = max_deadline, le_renewable = renewable, le_revoked = False\<rparr>
                      (e\<lparr>en_drawn := Suc (en_drawn e)\<rparr>)
            in (Inr i, put_session session (s\<lparr>se_children := se_children s @ [i]\<rparr>) e))"

definition renew :: "u64 \<Rightarrow> string \<Rightarrow> u64 \<Rightarrow> LeaseEngine \<Rightarrow> (LeaseError + u64) \<times> LeaseEngine" where
  "renew now lease increment e =
     (case map_of (en_leases e) lease of
        None \<Rightarrow> (Inl NoSuchLease, e)
      | Some l \<Rightarrow>
          if le_revoked l then (Inl AlreadyRevoked, e)
          else if \<not> le_renewable l then (Inl NotRenewable, e)
          else if le_expires_at l \<le> now then (Inl AlreadyRevoked, e)
          else
            case map_of (en_sessions e) (le_parent_session l) of
              None \<Rightarrow> (Inl SessionEnded, e)
            | Some s \<Rightarrow>
                if \<not> session_live s now then (Inl SessionEnded, e)
                else
                  let ceiling = min (le_max_deadline l) (se_expires_at s);
                      l = l\<lparr>le_expires_at := min (saturating_add now increment) ceiling\<rparr>
                  in (Inr (saturating_sub (le_expires_at l) now),
                      put_session (le_parent_session l) (touch s now) (put_lease lease l e)))"

definition revoke :: "string \<Rightarrow> LeaseEngine \<Rightarrow> (LeaseError + unit) \<times> LeaseEngine" where
  "revoke lease e =
     (case map_of (en_leases e) lease of
        None \<Rightarrow> (Inl NoSuchLease, e)
      | Some l \<Rightarrow>
          if le_revoked l then (Inl AlreadyRevoked, e)
          else (Inr (), put_lease lease (l\<lparr>le_revoked := True\<rparr>) e))"

fun revoke_each :: "string list \<Rightarrow> LeaseEngine \<Rightarrow> string list \<times> LeaseEngine" where
  "revoke_each [] e = ([], e)"
| "revoke_each (i # is) e =
     (case map_of (en_leases e) i of
        None \<Rightarrow> revoke_each is e
      | Some l \<Rightarrow>
          if le_revoked l then revoke_each is e
          else let (revoked, e) = revoke_each is (put_lease i (l\<lparr>le_revoked := True\<rparr>) e)
               in (i # revoked, e))"

definition end_session :: "string \<Rightarrow> LeaseEngine \<Rightarrow> (LeaseError + string list) \<times> LeaseEngine" where
  "end_session session e =
     (case map_of (en_sessions e) session of
        None \<Rightarrow> (Inl NoSuchSession, e)
      | Some s \<Rightarrow>
          let (revoked, e) = revoke_each (se_children s) (put_session session (s\<lparr>se_ended := True\<rparr>) e)
          in (Inr revoked, e))"

fun sweep_sessions :: "string list \<Rightarrow> LeaseEngine \<Rightarrow> Swept \<times> LeaseEngine" where
  "sweep_sessions [] e = (\<lparr>sw_ended_sessions = [], sw_revoked_leases = []\<rparr>, e)"
| "sweep_sessions (sid # sids) e =
     (case map_of (en_sessions e) sid of
        None \<Rightarrow> sweep_sessions sids e
      | Some s \<Rightarrow>
          let (revoked, e) = revoke_each (se_children s) (put_session sid (s\<lparr>se_ended := True\<rparr>) e);
              (swept, e) = sweep_sessions sids e
          in (\<lparr>sw_ended_sessions = sid # sw_ended_sessions swept,
               sw_revoked_leases = revoked @ sw_revoked_leases swept\<rparr>, e))"

definition sweep :: "iteration \<Rightarrow> u64 \<Rightarrow> LeaseEngine \<Rightarrow> Swept \<times> LeaseEngine" where
  "sweep it now e =
     (let expired = map se_id (filter (\<lambda>s. \<not> se_ended s \<and> (se_expires_at s \<le> now \<or> se_idle_deadline s \<le> now))
                                  (it_sessions it (map snd (en_sessions e))));
          (swept, e) = sweep_sessions expired e;
          expired_leases = map le_id (filter (\<lambda>l. \<not> le_revoked l \<and> le_expires_at l \<le> now)
                                         (it_leases it (map snd (en_leases e))));
          (revoked, e) = revoke_each expired_leases e
      in (swept\<lparr>sw_revoked_leases := sw_revoked_leases swept @ revoked\<rparr>, e))"

definition lease :: "string \<Rightarrow> LeaseEngine \<Rightarrow> Lease option" where
  "lease i e = map_of (en_leases e) i"

definition active_leases :: "iteration \<Rightarrow> u64 \<Rightarrow> LeaseEngine \<Rightarrow> Lease list" where
  "active_leases it now e =
     filter (\<lambda>l. \<not> le_revoked l \<and> now < le_expires_at l) (it_leases it (map snd (en_leases e)))"

definition active_sessions :: "iteration \<Rightarrow> u64 \<Rightarrow> LeaseEngine \<Rightarrow> SessionInfo list" where
  "active_sessions it now e =
     map (\<lambda>s. \<lparr>si_id = se_id s, si_expires_at = se_expires_at s, si_idle_deadline = se_idle_deadline s,
               si_child_count = length (se_children s)\<rparr>)
       (filter (\<lambda>s. session_live s now) (it_sessions it (map snd (en_sessions e))))"


section \<open>Calls\<close>

datatype lease_call =
    OpenSession u64 u64 u64
  | IssueLease u64 string u64 u64 bool
  | Renew u64 string u64
  | Revoke string
  | EndSession string
  | Sweep iteration u64

fun lease_exec :: "(nat \<Rightarrow> string) \<Rightarrow> lease_call \<Rightarrow> LeaseEngine \<Rightarrow> LeaseEngine" where
  "lease_exec gen (OpenSession now ttl idle) e = snd (open_session gen now ttl idle e)"
| "lease_exec gen (IssueLease now s ttl max_ttl renewable) e = snd (issue_lease gen now s ttl max_ttl renewable e)"
| "lease_exec gen (Renew now l increment) e = snd (renew now l increment e)"
| "lease_exec gen (Revoke l) e = snd (revoke l e)"
| "lease_exec gen (EndSession s) e = snd (end_session s e)"
| "lease_exec gen (Sweep it now) e = snd (sweep it now e)"

definition lease_run :: "(nat \<Rightarrow> string) \<Rightarrow> lease_call list \<Rightarrow> LeaseEngine \<Rightarrow> LeaseEngine" where
  "lease_run gen calls e = fold (lease_exec gen) calls e"

fun lease_call_ok :: "lease_call \<Rightarrow> bool" where
  "lease_call_ok (Sweep it now) \<longleftrightarrow> iterates it"
| "lease_call_ok _ \<longleftrightarrow> True"

section \<open>Maps\<close>

declare map_of_eq_Some_iff [simp del] Some_eq_map_of_iff [simp del]

abbreviation session_of :: "LeaseEngine \<Rightarrow> string \<Rightarrow> Session option" where
  "session_of e \<equiv> map_of (en_sessions e)"

abbreviation lease_of :: "LeaseEngine \<Rightarrow> string \<Rightarrow> Lease option" where
  "lease_of e \<equiv> map_of (en_leases e)"

named_theorems engine_simps "reading an engine after a write"

lemma put_simps [engine_simps]:
  "session_of (put_session k s e) = (session_of e)(k \<mapsto> s)"
  "lease_of (put_session k s e) = lease_of e"
  "en_drawn (put_session k s e) = en_drawn e"
  "lease_of (put_lease k l e) = (lease_of e)(k \<mapsto> l)"
  "session_of (put_lease k l e) = session_of e"
  "en_drawn (put_lease k l e) = en_drawn e"
  "en_leases (put_session k s e) = en_leases e"
  "en_sessions (put_lease k l e) = en_sessions e"
  by (simp_all add: put_session_def put_lease_def update_conv')

lemma put_distinct [engine_simps]:
  "distinct (map fst (en_sessions e)) \<Longrightarrow> distinct (map fst (en_sessions (put_session k s e)))"
  "distinct (map fst (en_leases e)) \<Longrightarrow> distinct (map fst (en_leases (put_lease k l e)))"
  by (simp_all add: put_session_def put_lease_def distinct_update)

lemma drawn_simps [engine_simps]:
  "session_of (e\<lparr>en_drawn := n\<rparr>) = session_of e" "lease_of (e\<lparr>en_drawn := n\<rparr>) = lease_of e"
  by simp_all

section \<open>Well-formed engines\<close>

text \<open>The invariant is on the two maps and the number of identifiers drawn.\<close>

definition session_ok :: "(nat \<Rightarrow> string) \<Rightarrow> nat \<Rightarrow> (string \<rightharpoonup> Lease) \<Rightarrow> string \<Rightarrow> Session \<Rightarrow> bool" where
  "session_ok gen n L k s \<longleftrightarrow>
     se_id s = k \<and> k \<in> gen ` {..<n} \<and> distinct (se_children s)
   \<and> (\<forall>i \<in> set (se_children s). \<exists>l. L i = Some l \<and> le_parent_session l = k)"

definition lease_ok :: "(nat \<Rightarrow> string) \<Rightarrow> nat \<Rightarrow> (string \<rightharpoonup> Session) \<Rightarrow> string \<Rightarrow> Lease \<Rightarrow> bool" where
  "lease_ok gen n S i l \<longleftrightarrow>
     le_id l = i \<and> i \<in> gen ` {..<n} \<and> le_expires_at l \<le> le_max_deadline l
   \<and> (\<exists>s. S (le_parent_session l) = Some s \<and> i \<in> set (se_children s)
        \<and> le_max_deadline l \<le> se_expires_at s \<and> (se_ended s \<longrightarrow> le_revoked l))"

definition maps_ok :: "(nat \<Rightarrow> string) \<Rightarrow> nat \<Rightarrow> (string \<rightharpoonup> Session) \<Rightarrow> (string \<rightharpoonup> Lease) \<Rightarrow> bool" where
  "maps_ok gen n S L \<longleftrightarrow>
     (\<forall>k s. S k = Some s \<longrightarrow> session_ok gen n L k s) \<and> (\<forall>i l. L i = Some l \<longrightarrow> lease_ok gen n S i l)"

definition engine_ok :: "(nat \<Rightarrow> string) \<Rightarrow> LeaseEngine \<Rightarrow> bool" where
  "engine_ok gen e \<longleftrightarrow>
     distinct (map fst (en_sessions e)) \<and> distinct (map fst (en_leases e))
   \<and> maps_ok gen (en_drawn e) (session_of e) (lease_of e)"

lemma maps_okD:
  assumes "maps_ok gen n S L"
  shows "S k = Some s \<Longrightarrow> session_ok gen n L k s" "L i = Some l \<Longrightarrow> lease_ok gen n S i l"
  using assms by (simp_all add: maps_ok_def)

lemma engine_okD:
  assumes "engine_ok gen e"
  shows "session_of e k = Some s \<Longrightarrow> session_ok gen (en_drawn e) (lease_of e) k s"
    "lease_of e i = Some l \<Longrightarrow> lease_ok gen (en_drawn e) (session_of e) i l"
  using assms by (simp_all add: engine_ok_def maps_ok_def)

lemma fresh_id:
  assumes "engine_ok gen e" "inj gen"
  shows "session_of e (gen (en_drawn e)) = None" "lease_of e (gen (en_drawn e)) = None"
proof -
  have "gen (en_drawn e) \<notin> gen ` {..<en_drawn e}"
    using assms(2) by (auto dest: injD)
  then show "session_of e (gen (en_drawn e)) = None" "lease_of e (gen (en_drawn e)) = None"
    using engine_okD [OF assms(1), of "gen (en_drawn e)"]
    by (fastforce simp: session_ok_def lease_ok_def)+
qed

lemma engine_ok_new: "engine_ok gen engine_new"
  by (simp add: engine_ok_def engine_new_def maps_ok_def)

text \<open>What a call may do to a session and to a lease that exist.\<close>

definition session_kept :: "Session \<Rightarrow> Session \<Rightarrow> bool" where
  "session_kept s s' \<longleftrightarrow>
     se_id s' = se_id s \<and> se_expires_at s' = se_expires_at s
   \<and> set (se_children s) \<subseteq> set (se_children s') \<and> (se_ended s \<longrightarrow> se_ended s')"

definition lease_kept :: "Lease \<Rightarrow> Lease \<Rightarrow> bool" where
  "lease_kept l l' \<longleftrightarrow>
     le_id l' = le_id l \<and> le_parent_session l' = le_parent_session l
   \<and> le_max_deadline l' = le_max_deadline l \<and> (le_revoked l \<longrightarrow> le_revoked l')"

definition maps_kept ::
  "(string \<rightharpoonup> Session) \<Rightarrow> (string \<rightharpoonup> Lease) \<Rightarrow> (string \<rightharpoonup> Session) \<Rightarrow> (string \<rightharpoonup> Lease) \<Rightarrow> bool" where
  "maps_kept S L S' L' \<longleftrightarrow>
     (\<forall>k s. S k = Some s \<longrightarrow> (\<exists>s'. S' k = Some s' \<and> session_kept s s'))
   \<and> (\<forall>i l. L i = Some l \<longrightarrow> (\<exists>l'. L' i = Some l' \<and> lease_kept l l'))"

lemma maps_kept_refl [simp]: "maps_kept S L S L"
  by (simp add: maps_kept_def session_kept_def lease_kept_def)

lemma session_kept_trans: "session_kept s s' \<Longrightarrow> session_kept s' s'' \<Longrightarrow> session_kept s s''"
  by (auto simp: session_kept_def)

lemma lease_kept_trans: "lease_kept l l' \<Longrightarrow> lease_kept l' l'' \<Longrightarrow> lease_kept l l''"
  by (auto simp: lease_kept_def)

lemma maps_kept_trans:
  assumes "maps_kept S L S' L'" "maps_kept S' L' S'' L''"
  shows "maps_kept S L S'' L''"
  using assms unfolding maps_kept_def
  by (meson session_kept_trans lease_kept_trans)

definition engine_kept :: "LeaseEngine \<Rightarrow> LeaseEngine \<Rightarrow> bool" where
  "engine_kept e e' \<longleftrightarrow> maps_kept (session_of e) (lease_of e) (session_of e') (lease_of e')"

section \<open>Each call\<close>

definition revoked :: "Lease \<Rightarrow> Lease" where
  "revoked l = l\<lparr>le_revoked := True\<rparr>"

lemma revoke_each_effect:
  "session_of (snd (revoke_each is e)) = session_of e
   \<and> en_sessions (snd (revoke_each is e)) = en_sessions e
   \<and> en_drawn (snd (revoke_each is e)) = en_drawn e
   \<and> lease_of (snd (revoke_each is e)) i = (if i \<in> set is then map_option revoked (lease_of e i) else lease_of e i)
   \<and> (distinct (map fst (en_leases e)) \<longrightarrow> distinct (map fst (en_leases (snd (revoke_each is e)))))
   \<and> distinct (fst (revoke_each is e))
   \<and> (i \<in> set (fst (revoke_each is e)) \<longleftrightarrow> i \<in> set is \<and> (\<exists>l. lease_of e i = Some l \<and> \<not> le_revoked l))"
proof (induction "is" e arbitrary: i rule: revoke_each.induct)
  case (2 j js e)
  show ?case
  proof (cases "lease_of e j")
    case None
    with 2 show ?thesis by auto
  next
    case (Some l)
    show ?thesis
    proof (cases "le_revoked l")
      case True
      then have "revoked l = l" by (simp add: revoked_def)
      with "2.IH"(2) [OF Some True] True Some show ?thesis by auto
    next
      case False
      note ih = "2.IH"(3) [OF Some False]
      from ih [of i] ih [of j] False Some show ?thesis
        by (auto simp: case_prod_beta engine_simps revoked_def)
    qed
  qed
qed simp

lemma revoke_each_sessions:
  "revoke_each is (e\<lparr>en_sessions := ss\<rparr>) =
     (fst (revoke_each is e), (snd (revoke_each is e))\<lparr>en_sessions := ss\<rparr>)"
proof (induction "is" e rule: revoke_each.induct)
  case (2 j js e)
  have "put_lease j l (e\<lparr>en_sessions := ss\<rparr>) = (put_lease j l e)\<lparr>en_sessions := ss\<rparr>" for l
    by (simp add: put_lease_def)
  with 2 show ?case
    by (auto simp: case_prod_beta split: option.splits)
qed simp

lemma revoke_each_append:
  "revoke_each (is @ js) e =
     (fst (revoke_each is e) @ fst (revoke_each js (snd (revoke_each is e))),
      snd (revoke_each js (snd (revoke_each is e))))"
  by (induction "is" e rule: revoke_each.induct) (auto simp: case_prod_beta split: option.splits)

definition kids :: "(string \<times> Session) list \<Rightarrow> string \<Rightarrow> string list" where
  "kids ss k = (case map_of ss k of None \<Rightarrow> [] | Some s \<Rightarrow> se_children s)"

lemma kids_iff: "i \<in> set (kids ss k) \<longleftrightarrow> (\<exists>s. map_of ss k = Some s \<and> i \<in> set (se_children s))"
  by (cases "map_of ss k") (simp_all add: kids_def)

definition end_in :: "string \<Rightarrow> (string \<times> Session) list \<Rightarrow> (string \<times> Session) list" where
  "end_in k ss = (case map_of ss k of None \<Rightarrow> ss | Some s \<Rightarrow> AList.update k (s\<lparr>se_ended := True\<rparr>) ss)"

lemma end_in_simps:
  "map_of (end_in k ss) = (map_of ss)(k := map_option (se_ended_update (\<lambda>_. True)) (map_of ss k))"
  "kids (end_in k ss) = kids ss"
  "distinct (map fst ss) \<Longrightarrow> distinct (map fst (end_in k ss))"
  by (auto simp: end_in_def kids_def update_conv' distinct_update fun_eq_iff split: option.splits)

lemma fold_end_in:
  "map_of (fold end_in ks ss) k =
     (if k \<in> set ks then map_option (se_ended_update (\<lambda>_. True)) (map_of ss k) else map_of ss k)"
  "distinct (map fst ss) \<Longrightarrow> distinct (map fst (fold end_in ks ss))"
  by (induction ks arbitrary: ss) (auto simp: end_in_simps option.map_comp o_def)

lemma sweep_sessions_alt:
  "sweep_sessions ks e =
     (let (rs, f) = revoke_each (concat (map (kids (en_sessions e)) ks)) e
      in (\<lparr>sw_ended_sessions = filter (\<lambda>k. session_of e k \<noteq> None) ks, sw_revoked_leases = rs\<rparr>,
          f\<lparr>en_sessions := fold end_in ks (en_sessions e)\<rparr>))"
proof (induction ks e rule: sweep_sessions.induct)
  case (2 j js e)
  show ?case
  proof (cases "session_of e j")
    case None
    with 2 show ?thesis
      by (simp add: end_in_def kids_def)
  next
    case (Some s)
    have put: "put_session j (s\<lparr>se_ended := True\<rparr>) e = e\<lparr>en_sessions := end_in j (en_sessions e)\<rparr>"
      by (simp add: put_session_def end_in_def Some)
    have "(\<lambda>k. map_of (end_in j (en_sessions e)) k \<noteq> None) = (\<lambda>k. session_of e k \<noteq> None)"
      by (auto simp: end_in_simps fun_eq_iff)
    with "2.IH"(2) [OF Some] Some show ?thesis
      by (simp add: put revoke_each_sessions case_prod_beta revoke_each_append end_in_simps(2) kids_def [of _ j])
  qed
qed (simp add: case_prod_beta)

text \<open>The leases that a sweep at this time must revoke.\<close>

definition expired_session :: "u64 \<Rightarrow> Session \<Rightarrow> bool" where
  "expired_session now s \<longleftrightarrow> \<not> se_ended s \<and> (se_expires_at s \<le> now \<or> se_idle_deadline s \<le> now)"

definition dies :: "u64 \<Rightarrow> LeaseEngine \<Rightarrow> Lease \<Rightarrow> bool" where
  "dies now e l \<longleftrightarrow>
     le_expires_at l \<le> now \<or> (\<exists>s. session_of e (le_parent_session l) = Some s \<and> expired_session now s)"

lemma keyed_values:
  assumes "mset vs = mset (map snd kvs)" "distinct (map fst kvs)" "\<And>k v. map_of kvs k = Some v \<Longrightarrow> f v = k"
  shows "k \<in> set (map f (filter P vs)) \<longleftrightarrow> (\<exists>v. map_of kvs k = Some v \<and> P v)" (is ?set)
    and "distinct (map f (filter P vs))" (is ?distinct)
proof -
  have key: "f v = k" if "(k, v) \<in> set kvs" for k v
    using that assms(2,3) by simp
  have "set vs = set (map snd kvs)"
    using assms(1) by (rule mset_eq_setD)
  then show ?set
    using key assms(2) by (force simp: map_of_eq_Some_iff)
  have "map f (map snd kvs) = map fst kvs"
    using key by auto
  moreover have "mset (map f vs) = mset (map f (map snd kvs))"
    using assms(1) by (metis mset_map)
  ultimately have "mset (map f vs) = mset (map fst kvs)"
    by (simp only:)
  then have "distinct (map f vs)"
    using assms(2) mset_eq_imp_distinct_iff by blast
  then show ?distinct
    by (rule distinct_map_filter)
qed

lemma parent_iff:
  assumes "engine_ok gen e" "session_of e k = Some s" "lease_of e i = Some l"
  shows "i \<in> set (se_children s) \<longleftrightarrow> le_parent_session l = k"
  using engine_okD(1) [OF assms(1,2)] engine_okD(2) [OF assms(1,3)] assms(2,3)
  by (auto simp: session_ok_def lease_ok_def)

lemma sweep_effect:
  assumes "engine_ok gen e" "iterates it"
  shows "session_of (snd (sweep it now e)) k =
       map_option (\<lambda>s. if expired_session now s then s\<lparr>se_ended := True\<rparr> else s) (session_of e k)" (is ?sessions)
    and "lease_of (snd (sweep it now e)) i =
       map_option (\<lambda>l. if dies now e l then revoked l else l) (lease_of e i)" (is ?leases)
    and "en_drawn (snd (sweep it now e)) = en_drawn e \<and> distinct (map fst (en_sessions (snd (sweep it now e))))
       \<and> distinct (map fst (en_leases (snd (sweep it now e))))" (is ?shape)
    and "distinct (sw_ended_sessions (fst (sweep it now e)))
       \<and> (k \<in> set (sw_ended_sessions (fst (sweep it now e))) \<longleftrightarrow>
            (\<exists>s. session_of e k = Some s \<and> expired_session now s))" (is ?ended)
    and "distinct (sw_revoked_leases (fst (sweep it now e)))
       \<and> (i \<in> set (sw_revoked_leases (fst (sweep it now e))) \<longleftrightarrow>
            (\<exists>l. lease_of e i = Some l \<and> \<not> le_revoked l \<and> dies now e l))" (is ?revoked)
proof -
  define ks where "ks = map se_id (filter (expired_session now) (it_sessions it (map snd (en_sessions e))))"
  define cs where "cs = concat (map (kids (en_sessions e)) ks)"
  define f where "f = (snd (revoke_each cs e))\<lparr>en_sessions := fold end_in ks (en_sessions e)\<rparr>"
  define ls where "ls = map le_id (filter (\<lambda>l. \<not> le_revoked l \<and> le_expires_at l \<le> now) (it_leases it (map snd (en_leases f))))"
  have dist: "distinct (map fst (en_sessions e))" "distinct (map fst (en_leases e))"
    using assms(1) by (simp_all add: engine_ok_def)
  have ks: "k \<in> set ks \<longleftrightarrow> (\<exists>s. session_of e k = Some s \<and> expired_session now s)" "distinct ks" for k
  proof -
    have "mset (it_sessions it (map snd (en_sessions e))) = mset (map snd (en_sessions e))"
      using assms(2) by (simp only: iterates_def)
    from keyed_values [OF this dist(1), of se_id] engine_okD(1) [OF assms(1)]
    show "k \<in> set ks \<longleftrightarrow> (\<exists>s. session_of e k = Some s \<and> expired_session now s)" "distinct ks"
      unfolding ks_def session_ok_def by blast+
  qed
  have cs: "i \<in> set cs \<longleftrightarrow> (\<exists>s. session_of e (le_parent_session l) = Some s \<and> expired_session now s)"
    if "lease_of e i = Some l" for i l
  proof -
    have kid: "i \<in> set (kids (en_sessions e) k) \<longleftrightarrow> le_parent_session l = k" if "session_of e k \<noteq> None" for k
      using that parent_iff [OF assms(1) _ \<open>lease_of e i = Some l\<close>, of k] by (auto simp: kids_def)
    have "i \<in> set cs \<longleftrightarrow> (\<exists>k \<in> set ks. i \<in> set (kids (en_sessions e) k))"
      by (simp add: cs_def)
    also have "\<dots> \<longleftrightarrow> le_parent_session l \<in> set ks"
      using kid ks(1) by (metis option.distinct(1))
    finally show ?thesis
      by (simp add: ks(1))
  qed
  have f: "lease_of f i = (if i \<in> set cs then map_option revoked (lease_of e i) else lease_of e i)"
    "distinct (map fst (en_leases f))" "en_drawn f = en_drawn e" for i
    using revoke_each_effect [of cs e i] dist by (simp_all add: f_def)
  have ls: "i \<in> set ls \<longleftrightarrow> (\<exists>l. lease_of f i = Some l \<and> \<not> le_revoked l \<and> le_expires_at l \<le> now)" "distinct ls" for i
  proof -
    have order: "mset (it_leases it (map snd (en_leases f))) = mset (map snd (en_leases f))"
      using assms(2) by (simp only: iterates_def)
    have key: "le_id l = i" if "lease_of f i = Some l" for i l
      using that f(1) [of i] engine_okD(2) [OF assms(1), of i]
      by (auto simp: lease_ok_def revoked_def split: if_splits)
    show "i \<in> set ls \<longleftrightarrow> (\<exists>l. lease_of f i = Some l \<and> \<not> le_revoked l \<and> le_expires_at l \<le> now)"
      unfolding ls_def by (rule keyed_values(1) [OF order f(2) key])
    show "distinct ls"
      unfolding ls_def by (rule keyed_values(2) [OF order f(2) key])
  qed
  have sweep: "sweep it now e =
      (\<lparr>sw_ended_sessions = filter (\<lambda>k. session_of e k \<noteq> None) ks,
        sw_revoked_leases = fst (revoke_each cs e) @ fst (revoke_each ls f)\<rparr>, snd (revoke_each ls f))"
  proof -
    have expired: "(\<lambda>s. \<not> se_ended s \<and> (se_expires_at s \<le> now \<or> se_idle_deadline s \<le> now)) = expired_session now"
      by (simp add: expired_session_def fun_eq_iff)
    show ?thesis
      unfolding sweep_def expired
      by (simp add: sweep_sessions_alt case_prod_beta Let_def flip: ks_def cs_def f_def)
        (simp add: f_def ls_def)
  qed
  have fs: "en_sessions f = fold end_in ks (en_sessions e)"
    by (simp add: f_def)
  have rs: "j \<in> set (fst (revoke_each cs e)) \<longleftrightarrow> j \<in> set cs \<and> (\<exists>l. lease_of e j = Some l \<and> \<not> le_revoked l)"
    "distinct (fst (revoke_each cs e))" for j
    using revoke_each_effect [of cs e j] by simp_all
  have qs: "j \<in> set (fst (revoke_each ls f)) \<longleftrightarrow> j \<in> set ls \<and> (\<exists>l. lease_of f j = Some l \<and> \<not> le_revoked l)"
    "distinct (fst (revoke_each ls f))"
    "lease_of (snd (revoke_each ls f)) j = (if j \<in> set ls then map_option revoked (lease_of f j) else lease_of f j)"
    "session_of (snd (revoke_each ls f)) = session_of f" "en_drawn (snd (revoke_each ls f)) = en_drawn f"
    "en_sessions (snd (revoke_each ls f)) = en_sessions f" "distinct (map fst (en_leases (snd (revoke_each ls f))))" for j
    using revoke_each_effect [of ls f j] f(2) by simp_all
  have dead: "j \<in> set cs \<or> j \<in> set ls \<longleftrightarrow> j \<in> set cs \<or> le_expires_at l \<le> now \<and> \<not> le_revoked l" if "lease_of e j = Some l" for j l
    using that by (auto simp: ls(1) f(1))
  show ?sessions
    by (cases "session_of e k") (simp_all add: sweep qs fs fold_end_in ks(1))
  show ?leases
  proof (cases "lease_of e i")
    case (Some l)
    then have "revoked l = l" if "le_revoked l"
      using that by (simp add: revoked_def)
    with Some dead [OF Some] cs [OF Some] show ?thesis
      by (auto simp: sweep qs f(1) dies_def revoked_def)
  qed (simp add: sweep qs f(1))
  show ?shape
    using dist f(3) qs by (simp add: sweep fs fold_end_in)
  show ?ended
    using ks by (auto simp: sweep)
  have disjoint: "set (fst (revoke_each cs e)) \<inter> set (fst (revoke_each ls f)) = {}"
    by (auto simp: rs(1) qs(1) f(1) revoked_def)
  show ?revoked
  proof (cases "lease_of e i")
    case (Some l)
    with dead [OF Some] cs [OF Some] disjoint rs(2) qs(2) show ?thesis
      by (auto simp: sweep rs(1) qs(1) f(1) dies_def revoked_def)
  qed (use disjoint rs(2) qs(2) in \<open>simp add: sweep rs(1) qs(1) f(1)\<close>)
qed

section \<open>Every call keeps the engine\<close>

lemma new_session:
  assumes "maps_ok gen n S L" "S (gen n) = None" "se_id s = gen n" "se_children s = []"
  shows "maps_ok gen (Suc n) (S(gen n \<mapsto> s)) L \<and> maps_kept S L (S(gen n \<mapsto> s)) L"
proof -
  have "session_ok gen (Suc n) L k s'" if "(S(gen n \<mapsto> s)) k = Some s'" for k s'
    using that maps_okD(1) [OF assms(1)] assms(3,4) by (auto simp: session_ok_def lessThan_Suc split: if_splits)
  moreover have "lease_ok gen (Suc n) (S(gen n \<mapsto> s)) i l" if "L i = Some l" for i l
    using maps_okD(2) [OF assms(1) that] assms(2) by (auto simp: lease_ok_def lessThan_Suc)
  ultimately show ?thesis
    using assms(2) by (auto simp: maps_ok_def maps_kept_def session_kept_def lease_kept_def)
qed

lemma new_lease:
  assumes "maps_ok gen n S L" "S k = Some s" "L (gen n) = None" "\<not> se_ended s"
    and "le_id l = gen n" "le_parent_session l = k" "le_expires_at l \<le> le_max_deadline l" "le_max_deadline l \<le> se_expires_at s"
    and "se_id s' = se_id s" "se_expires_at s' = se_expires_at s" "se_children s' = se_children s @ [gen n]" "\<not> se_ended s'"
  shows "maps_ok gen (Suc n) (S(k \<mapsto> s')) (L(gen n \<mapsto> l)) \<and> maps_kept S L (S(k \<mapsto> s')) (L(gen n \<mapsto> l))"
proof -
  note old = maps_okD [OF assms(1)]
  have "gen n \<notin> set (se_children t)" if "S j = Some t" for j t
    using old(1) [OF that] assms(3) by (auto simp: session_ok_def)
  then have "session_ok gen (Suc n) (L(gen n \<mapsto> l)) j t" if "(S(k \<mapsto> s')) j = Some t" for j t
    using that old(1) [of j] old(1) [OF assms(2)] assms
    by (auto simp: session_ok_def lessThan_Suc split: if_splits)
  moreover have "lease_ok gen (Suc n) (S(k \<mapsto> s')) i m" if "(L(gen n \<mapsto> l)) i = Some m" for i m
    using that old(2) [of i] assms by (auto simp: lease_ok_def lessThan_Suc split: if_splits)
  ultimately show ?thesis
    using assms by (auto simp: maps_ok_def maps_kept_def session_kept_def lease_kept_def)
qed

text \<open>Calls that change sessions and leases in place.\<close>

lemma changed_in_place:
  assumes "maps_ok gen n S L"
    and "\<And>k. S' k = map_option (g k) (S k)" "\<And>i. L' i = map_option (h i) (L i)"
    and "\<And>k s. S k = Some s \<Longrightarrow> session_kept s (g k s) \<and> se_children (g k s) = se_children s"
    and "\<And>i l. L i = Some l \<Longrightarrow> lease_kept l (h i l) \<and> le_expires_at (h i l) \<le> le_max_deadline l"
    and "\<And>i l s. L i = Some l \<Longrightarrow> S (le_parent_session l) = Some s \<Longrightarrow> se_ended (g (le_parent_session l) s) \<Longrightarrow> le_revoked (h i l)"
  shows "maps_ok gen n S' L' \<and> maps_kept S L S' L'"
proof -
  note old = maps_okD [OF assms(1)]
  have "session_ok gen n L' k s'" if new: "S' k = Some s'" for k s'
  proof -
    obtain s where s: "S k = Some s" "s' = g k s"
      using new assms(2) [of k] by auto
    have "\<exists>l. L' i = Some l \<and> le_parent_session l = k" if "i \<in> set (se_children s)" for i
      using old(1) [OF s(1)] that assms(3) [of i] assms(5) [of i]
      by (auto simp: session_ok_def lease_kept_def)
    then show ?thesis
      using old(1) [OF s(1)] assms(4) [OF s(1)] by (simp add: s(2) session_ok_def session_kept_def)
  qed
  moreover have "lease_ok gen n S' i l'" if new: "L' i = Some l'" for i l'
  proof -
    obtain l where l: "L i = Some l" "l' = h i l"
      using new assms(3) [of i] by auto
    obtain s where s: "S (le_parent_session l) = Some s" "i \<in> set (se_children s)" "le_max_deadline l \<le> se_expires_at s"
      using old(2) [OF l(1)] by (auto simp: lease_ok_def)
    show ?thesis
      using old(2) [OF l(1)] s assms(2) [of "le_parent_session l"] assms(4) [OF s(1)] assms(5,6) [OF l(1)]
      by (simp add: l(2) lease_ok_def session_kept_def lease_kept_def)
  qed
  ultimately show ?thesis
    using assms(2-5) by (auto simp: maps_ok_def maps_kept_def)
qed

lemma engine_stepI:
  assumes "engine_ok gen e" "distinct (map fst (en_sessions f))" "distinct (map fst (en_leases f))"
    and "maps_ok gen (en_drawn f) (session_of f) (lease_of f) \<and> maps_kept (session_of e) (lease_of e) (session_of f) (lease_of f)"
  shows "engine_ok gen f \<and> engine_kept e f"
  using assms by (simp add: engine_ok_def engine_kept_def)

lemma engine_ok_distinct [intro]:
  "engine_ok gen e \<Longrightarrow> distinct (map fst (en_sessions e))" "engine_ok gen e \<Longrightarrow> distinct (map fst (en_leases e))"
  by (simp_all add: engine_ok_def)

lemma engine_unchanged: "engine_ok gen e \<Longrightarrow> engine_ok gen e \<and> engine_kept e e"
  by (simp add: engine_kept_def)

lemma open_session_step:
  assumes "engine_ok gen e" "inj gen"
  shows "engine_ok gen (snd (open_session gen now ttl idle e)) \<and> engine_kept e (snd (open_session gen now ttl idle e))"
proof (rule engine_stepI [OF assms(1)])
  show "maps_ok gen (en_drawn (snd (open_session gen now ttl idle e))) (session_of (snd (open_session gen now ttl idle e)))
      (lease_of (snd (open_session gen now ttl idle e)))
    \<and> maps_kept (session_of e) (lease_of e) (session_of (snd (open_session gen now ttl idle e)))
        (lease_of (snd (open_session gen now ttl idle e)))"
    using assms fresh_id(1) [OF assms] unfolding open_session_def Let_def snd_conv engine_simps
    by (simp add: put_session_def) (rule new_session; simp add: engine_ok_def)
qed (use assms(1) engine_ok_distinct [OF assms(1)] in \<open>simp_all add: open_session_def Let_def engine_simps\<close>)

lemma touch_simps [simp]:
  "se_id (touch s now) = se_id s" "se_expires_at (touch s now) = se_expires_at s"
  "se_children (touch s now) = se_children s" "se_ended (touch s now) = se_ended s"
  by (simp_all add: touch_def)

lemma issue_lease_step:
  assumes "engine_ok gen e" "inj gen"
  shows "engine_ok gen (snd (issue_lease gen now k ttl max_ttl r e)) \<and> engine_kept e (snd (issue_lease gen now k ttl max_ttl r e))"
proof (cases "\<exists>s. session_of e k = Some s \<and> session_live s now")
  case True
  then obtain s where s: "session_of e k = Some s" "session_live s now"
    by blast
  define l where "l = \<lparr>le_id = gen (en_drawn e), le_parent_session = k,
    le_expires_at = min (saturating_add now ttl) (min (saturating_add now max_ttl) (se_expires_at s)),
    le_max_deadline = min (saturating_add now max_ttl) (se_expires_at s), le_renewable = r, le_revoked = False\<rparr>"
  define s' where "s' = (touch s now)\<lparr>se_children := se_children s @ [gen (en_drawn e)]\<rparr>"
  have issue: "snd (issue_lease gen now k ttl max_ttl r e) =
      put_session k s' (put_lease (gen (en_drawn e)) l (e\<lparr>en_drawn := Suc (en_drawn e)\<rparr>))"
    using s by (simp add: issue_lease_def Let_def l_def s'_def)
  have "maps_ok gen (Suc (en_drawn e)) ((session_of e)(k \<mapsto> s')) ((lease_of e)(gen (en_drawn e) \<mapsto> l))
      \<and> maps_kept (session_of e) (lease_of e) ((session_of e)(k \<mapsto> s')) ((lease_of e)(gen (en_drawn e) \<mapsto> l))"
    using assms(1) s fresh_id(2) [OF assms]
    by (intro new_lease [where s = s]) (auto simp: engine_ok_def l_def s'_def session_live_def min_def)
  then show ?thesis
    unfolding issue using engine_ok_distinct [OF assms(1)]
    by (intro engine_stepI [OF assms(1)]) (simp_all add: engine_simps)
next
  case False
  then have "snd (issue_lease gen now k ttl max_ttl r e) = e"
    by (auto simp: issue_lease_def split: option.splits)
  with engine_unchanged [OF assms(1)] show ?thesis by simp
qed

text \<open>The effect of a call in place, as functions on the two maps.\<close>

lemma in_placeI:
  assumes "engine_ok gen e" "distinct (map fst (en_sessions f))" "distinct (map fst (en_leases f))"
    and "en_drawn f = en_drawn e"
    and "\<And>k. session_of f k = map_option (g k) (session_of e k)" "\<And>i. lease_of f i = map_option (h i) (lease_of e i)"
    and "\<And>k s. session_of e k = Some s \<Longrightarrow> session_kept s (g k s) \<and> se_children (g k s) = se_children s"
    and "\<And>i l. lease_of e i = Some l \<Longrightarrow> lease_kept l (h i l) \<and> le_expires_at (h i l) \<le> le_max_deadline l"
    and "\<And>i l s. lease_of e i = Some l \<Longrightarrow> session_of e (le_parent_session l) = Some s
      \<Longrightarrow> se_ended (g (le_parent_session l) s) \<Longrightarrow> le_revoked (h i l)"
  shows "engine_ok gen f \<and> engine_kept e f"
proof (rule engine_stepI [OF assms(1-3)])
  have "maps_ok gen (en_drawn e) (session_of e) (lease_of e)"
    using assms(1) by (simp add: engine_ok_def)
  from changed_in_place [OF this assms(5-9)]
  show "maps_ok gen (en_drawn f) (session_of f) (lease_of f)
      \<and> maps_kept (session_of e) (lease_of e) (session_of f) (lease_of f)"
    by (simp add: assms(4))
qed

lemma lease_bounds:
  assumes "engine_ok gen e" "lease_of e i = Some l"
  shows "le_expires_at l \<le> le_max_deadline l"
    and "session_of e (le_parent_session l) = Some s \<Longrightarrow> se_ended s \<Longrightarrow> le_revoked l"
  using engine_okD(2) [OF assms] by (auto simp: lease_ok_def)

lemma renew_step:
  assumes "engine_ok gen e"
  shows "engine_ok gen (snd (renew now j increment e)) \<and> engine_kept e (snd (renew now j increment e))"
proof (cases "snd (renew now j increment e) = e")
  case False
  then obtain l s where l: "lease_of e j = Some l" and s: "session_of e (le_parent_session l) = Some s"
    and live: "session_live s now"
    and renew: "snd (renew now j increment e) =
      put_session (le_parent_session l) (touch s now)
        (put_lease j (l\<lparr>le_expires_at := min (saturating_add now increment) (min (le_max_deadline l) (se_expires_at s))\<rparr>) e)"
    by (auto simp: renew_def Let_def split: option.splits if_splits)
  let ?l = "l\<lparr>le_expires_at := min (saturating_add now increment) (min (le_max_deadline l) (se_expires_at s))\<rparr>"
  show ?thesis
    unfolding renew
    by (rule in_placeI [OF assms, where g = "\<lambda>k t. if k = le_parent_session l then touch s now else t"
          and h = "\<lambda>i m. if i = j then ?l else m"])
      (use engine_ok_distinct [OF assms] l s live lease_bounds [OF assms] in
        \<open>auto simp: engine_simps session_kept_def lease_kept_def session_live_def option.map_ident min_le_iff_disj split: if_splits\<close>)
qed (use engine_unchanged [OF assms] in simp)

lemma revoke_step:
  assumes "engine_ok gen e"
  shows "engine_ok gen (snd (revoke j e)) \<and> engine_kept e (snd (revoke j e))"
proof (cases "snd (revoke j e) = e")
  case False
  then obtain l where l: "lease_of e j = Some l" and revoke: "snd (revoke j e) = put_lease j (l\<lparr>le_revoked := True\<rparr>) e"
    by (auto simp: revoke_def split: option.splits if_splits)
  show ?thesis
    unfolding revoke
    by (rule in_placeI [OF assms, where g = "\<lambda>k t. t" and h = "\<lambda>i m. if i = j then l\<lparr>le_revoked := True\<rparr> else m"])
      (use engine_ok_distinct [OF assms] l lease_bounds [OF assms] in
        \<open>auto simp: engine_simps session_kept_def lease_kept_def option.map_ident split: if_splits\<close>)
qed (use engine_unchanged [OF assms] in simp)

lemma ended_children:
  assumes "engine_ok gen e" "session_of e k = Some s"
  shows "lease_of (snd (end_session k e)) i =
      map_option (\<lambda>l. if le_parent_session l = k then revoked l else l) (lease_of e i)"
    and "session_of (snd (end_session k e)) j =
      map_option (\<lambda>t. if j = k then t\<lparr>se_ended := True\<rparr> else t) (session_of e j)"
    and "fst (end_session k e) = Inr is \<Longrightarrow> distinct is
      \<and> (i \<in> set is \<longleftrightarrow> (\<exists>l. lease_of e i = Some l \<and> le_parent_session l = k \<and> \<not> le_revoked l))"
proof -
  let ?e = "put_session k (s\<lparr>se_ended := True\<rparr>) e"
  note each = revoke_each_effect [of "se_children s" ?e i, unfolded engine_simps]
  show "lease_of (snd (end_session k e)) i =
      map_option (\<lambda>l. if le_parent_session l = k then revoked l else l) (lease_of e i)"
    using each parent_iff [OF assms]
    by (cases "lease_of e i") (simp_all add: end_session_def assms(2) case_prod_beta)
  show "session_of (snd (end_session k e)) j =
      map_option (\<lambda>t. if j = k then t\<lparr>se_ended := True\<rparr> else t) (session_of e j)"
    using each assms(2) by (simp add: end_session_def case_prod_beta option.map_ident engine_simps)
  show "fst (end_session k e) = Inr is \<Longrightarrow> distinct is
      \<and> (i \<in> set is \<longleftrightarrow> (\<exists>l. lease_of e i = Some l \<and> le_parent_session l = k \<and> \<not> le_revoked l))"
    using each parent_iff [OF assms] by (auto simp: end_session_def assms(2) case_prod_beta)
qed

lemma end_session_step:
  assumes "engine_ok gen e"
  shows "engine_ok gen (snd (end_session k e)) \<and> engine_kept e (snd (end_session k e))"
proof (cases "session_of e k")
  case None
  with engine_unchanged [OF assms] show ?thesis by (simp add: end_session_def)
next
  case (Some s)
  let ?e = "put_session k (s\<lparr>se_ended := True\<rparr>) e"
  have shape: "distinct (map fst (en_sessions (snd (end_session k e))))" "distinct (map fst (en_leases (snd (end_session k e))))"
    "en_drawn (snd (end_session k e)) = en_drawn e"
    using revoke_each_effect [of "se_children s" ?e undefined] engine_ok_distinct [OF assms]
    by (simp_all add: end_session_def Some case_prod_beta engine_simps)
  show ?thesis
    by (rule in_placeI [OF assms shape ended_children(2,1) [OF assms Some]])
      (use lease_bounds [OF assms] in \<open>auto simp: session_kept_def lease_kept_def revoked_def split: if_splits\<close>)
qed

lemma sweep_step:
  assumes "engine_ok gen e" "iterates it"
  shows "engine_ok gen (snd (sweep it now e)) \<and> engine_kept e (snd (sweep it now e))"
proof -
  have shape: "distinct (map fst (en_sessions (snd (sweep it now e))))" "distinct (map fst (en_leases (snd (sweep it now e))))"
    "en_drawn (snd (sweep it now e)) = en_drawn e"
    using sweep_effect(3) [OF assms] by simp_all
  show ?thesis
    by (rule in_placeI [OF assms(1) shape sweep_effect(1,2) [OF assms]])
      (use lease_bounds [OF assms(1)] in
        \<open>auto simp: session_kept_def lease_kept_def revoked_def dies_def split: if_splits\<close>)
qed

lemma lease_exec_step:
  assumes "engine_ok gen e" "inj gen" "lease_call_ok x"
  shows "engine_ok gen (lease_exec gen x e) \<and> engine_kept e (lease_exec gen x e)"
  using assms
  by (cases x) (simp_all add: open_session_step issue_lease_step renew_step revoke_step end_session_step sweep_step)

lemma lease_run_step:
  assumes "engine_ok gen e" "inj gen" "list_all lease_call_ok calls"
  shows "engine_ok gen (lease_run gen calls e) \<and> engine_kept e (lease_run gen calls e)"
  using assms
proof (induction calls arbitrary: e)
  case (Cons x calls)
  then have step: "engine_ok gen (lease_exec gen x e)" "engine_kept e (lease_exec gen x e)"
    using lease_exec_step [of gen e x] by simp_all
  with Cons have "engine_ok gen (lease_run gen calls (lease_exec gen x e))"
    "engine_kept (lease_exec gen x e) (lease_run gen calls (lease_exec gen x e))"
    by simp_all
  with step(2) show ?case
    unfolding engine_kept_def by (auto simp: lease_run_def dest: maps_kept_trans)
qed (simp add: lease_run_def engine_kept_def)

lemma active_leases_iff:
  assumes "engine_ok gen e" "iterates it"
  shows "l \<in> set (active_leases it now e) \<longleftrightarrow> lease_of e (le_id l) = Some l \<and> \<not> le_revoked l \<and> now < le_expires_at l"
proof -
  have "set (it_leases it (map snd (en_leases e))) = set (map snd (en_leases e))"
    using assms(2) by (intro mset_eq_setD) (simp only: iterates_def)
  moreover have "l \<in> set (map snd (en_leases e)) \<longleftrightarrow> lease_of e (le_id l) = Some l"
  proof
    assume "l \<in> set (map snd (en_leases e))"
    then obtain i where "(i, l) \<in> set (en_leases e)"
      by auto
    then have i: "lease_of e i = Some l"
      by (rule map_of_is_SomeI [OF engine_ok_distinct(2) [OF assms(1)]])
    with engine_okD(2) [OF assms(1) i] show "lease_of e (le_id l) = Some l"
      by (simp add: lease_ok_def)
  next
    assume "lease_of e (le_id l) = Some l"
    from map_of_SomeD [OF this] show "l \<in> set (map snd (en_leases e))"
      by (metis list.set_map image_eqI snd_conv)
  qed
  ultimately show ?thesis
    by (auto simp: active_leases_def)
qed

lemma session_of_lease:
  assumes "engine_ok gen e" "lease_of e i = Some l" "\<not> le_revoked l"
  obtains s where "session_of e (le_parent_session l) = Some s" "\<not> se_ended s"
  using engine_okD(2) [OF assms(1,2)] assms(3) by (auto simp: lease_ok_def)

section \<open>A sample run\<close>

definition sample_gen :: "nat \<Rightarrow> string" where
  "sample_gen n = replicate n CHR ''i''"

definition sample_iteration :: iteration where
  "sample_iteration = \<lparr>it_sessions = rev, it_leases = rev\<rparr>"

definition sample_calls :: "lease_call list" where
  "sample_calls =
     [OpenSession 0 100 50, IssueLease 0 (sample_gen 0) 10 80 True, IssueLease 5 (sample_gen 0) 60 80 True,
      OpenSession 5 200 10]"

definition sample_engine :: LeaseEngine where
  "sample_engine = lease_run sample_gen sample_calls engine_new"

lemma sample_gen_inj: "inj sample_gen"
  by (auto simp: sample_gen_def inj_on_def dest: arg_cong [of _ _ length])

lemma sample_iterates: "iterates sample_iteration"
  by (simp add: iterates_def sample_iteration_def)

lemma sample_calls_ok: "list_all lease_call_ok sample_calls"
  by (simp add: sample_calls_def)

lemma sample_engine_ok: "engine_ok sample_gen sample_engine"
  using lease_run_step [OF engine_ok_new sample_gen_inj sample_calls_ok] by (simp add: sample_engine_def)

section \<open>Properties\<close>

text \<open>
  C34. Every reachable engine is well formed. Whatever calls are made, each map has one entry per
  identifier; every lease belongs to a known session, which lists it as a child exactly once, and
  every child belongs to its session; no lease is valid beyond its own limit, and no limit lies
  beyond the expiry of the session; and every lease of an ended session is revoked.
\<close>

theorem lease_engine_well_formed:
  assumes "inj gen" "list_all lease_call_ok calls"
  shows "engine_ok gen (lease_run gen calls engine_new)"
  using lease_run_step [OF engine_ok_new assms] by simp

theorem lease_engine_well_formed_witness:
  "inj sample_gen \<and> list_all lease_call_ok sample_calls
   \<and> engine_ok sample_gen (lease_run sample_gen sample_calls engine_new)"
  using lease_engine_well_formed [OF sample_gen_inj sample_calls_ok] sample_gen_inj sample_calls_ok by simp

text \<open>
  C35. No sequence of calls extends a lease past its limit, brings it back or moves it. From a well
  formed engine on, a lease stays under its identifier with its parent and its limit, its expiry
  stays within that limit, and a revocation is for good; and the lease is revoked whenever the
  session that issued it has ended.
\<close>

theorem lease_stays_bounded:
  assumes "engine_ok gen e" "inj gen" "list_all lease_call_ok calls" "lease i e = Some l"
  shows "\<exists>l' s'. lease i (lease_run gen calls e) = Some l'
    \<and> le_parent_session l' = le_parent_session l \<and> le_max_deadline l' = le_max_deadline l
    \<and> le_expires_at l' \<le> le_max_deadline l \<and> (le_revoked l \<longrightarrow> le_revoked l')
    \<and> map_of (en_sessions (lease_run gen calls e)) (le_parent_session l) = Some s'
    \<and> le_max_deadline l \<le> se_expires_at s' \<and> (se_ended s' \<longrightarrow> le_revoked l')"
proof -
  note run = lease_run_step [OF assms(1-3)]
  obtain l' where l': "lease_of (lease_run gen calls e) i = Some l'" "lease_kept l l'"
    using run assms(4) unfolding engine_kept_def maps_kept_def lease_def by blast
  then show ?thesis
    using engine_okD(2) [OF conjunct1 [OF run] l'(1)] by (auto simp: lease_def lease_kept_def lease_ok_def)
qed

theorem lease_stays_bounded_witness:
  "\<exists>l l'. lease (sample_gen 1) sample_engine = Some l \<and> le_max_deadline l = 80
    \<and> lease (sample_gen 1) (lease_run sample_gen [Renew 7 (sample_gen 1) 1000] sample_engine) = Some l'
    \<and> le_max_deadline l' = 80 \<and> le_expires_at l' \<le> 80"
proof -
  have "map_option le_max_deadline (lease (sample_gen 1) sample_engine) = Some 80"
    by code_simp
  then obtain l where l: "lease (sample_gen 1) sample_engine = Some l" "le_max_deadline l = 80"
    by auto
  from lease_stays_bounded [OF sample_engine_ok sample_gen_inj _ l(1), of "[Renew 7 (sample_gen 1) 1000]"] l
  show ?thesis by auto
qed

text \<open>
  C36. A sweep is exact. It ends exactly the sessions past a deadline and revokes exactly the leases
  that are past their expiry or belong to such a session, whatever the order in which the maps are
  visited; it changes nothing else; and it reports each ended session and each lease it revoked once
  and no other. Afterwards a lease is active exactly when it was active before and its session is
  live.
\<close>

theorem sweep_exact:
  assumes "engine_ok gen e" "iterates it" "sweep it now e = (swept, e')"
  shows "lease i e' = map_option (\<lambda>l. if dies now e l then l\<lparr>le_revoked := True\<rparr> else l) (lease i e)
    \<and> map_of (en_sessions e') k =
        map_option (\<lambda>s. if expired_session now s then s\<lparr>se_ended := True\<rparr> else s) (map_of (en_sessions e) k)
    \<and> distinct (sw_ended_sessions swept) \<and> distinct (sw_revoked_leases swept)
    \<and> (k \<in> set (sw_ended_sessions swept) \<longleftrightarrow> (\<exists>s. map_of (en_sessions e) k = Some s \<and> expired_session now s))
    \<and> (i \<in> set (sw_revoked_leases swept) \<longleftrightarrow> (\<exists>l. lease i e = Some l \<and> \<not> le_revoked l \<and> dies now e l))
    \<and> (l \<in> set (active_leases it now e') \<longleftrightarrow>
        l \<in> set (active_leases it now e) \<and> (\<exists>s. map_of (en_sessions e) (le_parent_session l) = Some s \<and> session_live s now))"
proof -
  have e': "e' = snd (sweep it now e)" and swept: "swept = fst (sweep it now e)"
    by (simp_all add: assms(3))
  note effect = sweep_effect [OF assms(1,2), of now, folded e' swept]
  have ok: "engine_ok gen e'"
    using sweep_step [OF assms(1,2)] by (simp add: e')
  have "l \<in> set (active_leases it now e') \<longleftrightarrow> lease_of e (le_id l) = Some l \<and> \<not> le_revoked l \<and> \<not> dies now e l"
  proof (cases "lease_of e (le_id l)")
    case (Some m)
    have "le_revoked (revoked m)"
      by (simp add: revoked_def)
    moreover have "\<not> dies now e m \<Longrightarrow> now < le_expires_at m"
      by (simp add: dies_def not_le)
    ultimately show ?thesis
      unfolding active_leases_iff [OF ok assms(2)] effect(2) Some
      by (cases "dies now e m") (simp_all, metis+)
  qed (simp add: active_leases_iff [OF ok assms(2)] effect(2))
  also have "\<dots> \<longleftrightarrow> l \<in> set (active_leases it now e)
      \<and> (\<exists>s. session_of e (le_parent_session l) = Some s \<and> session_live s now)"
  proof (cases "lease_of e (le_id l) = Some l \<and> \<not> le_revoked l")
    case True
    then obtain s where s: "session_of e (le_parent_session l) = Some s" "\<not> se_ended s"
      using session_of_lease [OF assms(1)] by metis
    then have "dies now e l \<longleftrightarrow> le_expires_at l \<le> now \<or> \<not> session_live s now"
      by (auto simp: dies_def expired_session_def session_live_def)
    with True s(1) show ?thesis
      by (simp add: active_leases_iff [OF assms(1,2)] not_le)
  next
    case False
    then show ?thesis
      unfolding active_leases_iff [OF assms(1,2)] by blast
  qed
  finally show ?thesis
    using effect [unfolded revoked_def] by (simp add: lease_def)
qed

theorem sweep_exact_witness:
  "sample_gen 1 \<in> set (sw_revoked_leases (fst (sweep sample_iteration 20 sample_engine)))
   \<and> sample_gen 3 \<in> set (sw_ended_sessions (fst (sweep sample_iteration 20 sample_engine)))
   \<and> distinct (sw_revoked_leases (fst (sweep sample_iteration 20 sample_engine)))"
proof -
  have "map_option (\<lambda>l. (le_revoked l, le_expires_at l)) (lease (sample_gen 1) sample_engine) = Some (False, 10)"
    "map_option (\<lambda>s. (se_ended s, se_idle_deadline s)) (map_of (en_sessions sample_engine) (sample_gen 3)) = Some (False, 15)"
    by code_simp+
  then have "\<exists>l. lease (sample_gen 1) sample_engine = Some l \<and> \<not> le_revoked l \<and> dies 20 sample_engine l"
    "\<exists>s. map_of (en_sessions sample_engine) (sample_gen 3) = Some s \<and> expired_session 20 s"
    by (auto simp: dies_def expired_session_def)
  then show ?thesis
    using sweep_exact [OF sample_engine_ok sample_iterates, of 20 "fst (sweep sample_iteration 20 sample_engine)"
        "snd (sweep sample_iteration 20 sample_engine)" "sample_gen 1" "sample_gen 3"] by simp
qed

end
