(* ===== verification/Audit_Chain.thy ===== *)
theory Audit_Chain
  imports Text_Codecs
begin

text \<open>
  The audit log of the transport crate, \<^verbatim>\<open>src/services/vesta-transport/src/audit.rs\<close>: a file of JSON
  lines in which every record carries a hash over the previous hash, its number and its event. The
  file system is explicit: opening for reading and for appending may fail, a failed write may leave
  a part of the line, and reading a line may fail, as it always does when the line is not UTF-8.
  The JSON encoder and decoder and the hash function are parameters. The lemmas show that the log
  verifies after every run in which no write was torn and no restart was refused the reading of the
  file, across all other failures; what a torn write and a refused read do; and what a file that
  verifies proves.
\<close>

section \<open>Events\<close>

datatype ActorKind = User | ApiToken | System | DevBypass

record Actor =
  ac_label :: string
  ac_kind :: ActorKind
  ac_id :: "string option"
  ac_tenant :: "string option"

record Target =
  tg_kind :: string
  tg_id :: "string option"

datatype Outcome = Success | Failure

record AuditEvent =
  ae_ts :: string
  ae_schema_version :: u8
  ae_source :: string
  ae_node :: string
  ae_residency_group :: "string option"
  ae_actor :: Actor
  ae_action :: string
  ae_target :: Target
  ae_outcome :: Outcome
  ae_request_id :: "string option"

definition audit_vault ::
  "string \<Rightarrow> string \<Rightarrow> string option \<Rightarrow> Actor \<Rightarrow> string \<Rightarrow> Target \<Rightarrow> Outcome \<Rightarrow> string option \<Rightarrow> AuditEvent" where
  "audit_vault ts node residency_group actor action target outcome request_id =
     \<lparr>ae_ts = ts, ae_schema_version = 1, ae_source = ''vesta'', ae_node = node,
      ae_residency_group = residency_group, ae_actor = actor, ae_action = action,
      ae_target = target, ae_outcome = outcome, ae_request_id = request_id\<rparr>"

datatype AuditError = SerializeError | AppendError

section \<open>Records\<close>

record RecordIn =
  ri_seq :: u64
  ri_prev :: string
  ri_hash :: string
  ri_event :: string

text \<open>
  The parameters: SHA-256, \<open>serde_json::to_vec\<close> of an event and of a record, and
  \<open>serde_json::from_str\<close> of a record, which keeps the text of the event.
\<close>

record audit_env =
  au_sha256 :: "bytes \<Rightarrow> bytes"
  au_event :: "AuditEvent \<Rightarrow> string option"
  au_record :: "u64 \<Rightarrow> string \<Rightarrow> string \<Rightarrow> AuditEvent \<Rightarrow> string option"
  au_parse :: "string \<Rightarrow> RecordIn option"

datatype VerifyError =
    Io
  | Malformed u64
  | SeqGap u64 u64
  | BrokenChain u64
  | Tampered u64

definition GENESIS :: bytes where
  "GENESIS = replicate 32 0"

definition record_hash :: "audit_env \<Rightarrow> bytes \<Rightarrow> u64 \<Rightarrow> bytes \<Rightarrow> bytes" where
  "record_hash E prev seq event_bytes = au_sha256 E (prev @ u64_to_be_bytes seq @ event_bytes)"

definition to_hex :: "bytes \<Rightarrow> string" where
  "to_hex bs = concat (map hex_byte bs)"

text \<open>\<open>s.get(i..j)\<close>.\<close>

definition str_get :: "string \<Rightarrow> nat \<Rightarrow> nat \<Rightarrow> string option" where
  "str_get s i j = (case str_slice s i j of Panicked \<Rightarrow> None | Returned t \<Rightarrow> Some t)"

definition from_hex32 :: "string \<Rightarrow> bytes option" where
  "from_hex32 s =
     (if length s \<noteq> 64 then None
      else those (map (\<lambda>i. Option.bind (str_get s (i * 2) (i * 2 + 2)) u8_from_hex) [0..<32]))"

section \<open>Files\<close>

definition newline :: char where
  "newline = CHR 0x0A"

definition strip_cr :: "string \<Rightarrow> string" where
  "strip_cr l = (if l \<noteq> [] \<and> last l = CHR 0x0D then butlast l else l)"

lemma tl_dropWhile_less: "s \<noteq> [] \<Longrightarrow> length (dropWhile P s) - Suc 0 < length s"
proof -
  assume "s \<noteq> []"
  then have "0 < length s" by simp
  with length_dropWhile_le [of P s] show ?thesis by linarith
qed

text \<open>\<open>BufRead::lines\<close>.\<close>

function lines_of :: "string \<Rightarrow> string list" where
  "lines_of s =
     (if s = [] then []
      else let l = takeWhile (\<lambda>c. c \<noteq> newline) s; rest = dropWhile (\<lambda>c. c \<noteq> newline) s
           in if rest = [] then [l] else strip_cr l # lines_of (tl rest))"
  by pat_completeness auto
termination
  by (relation "measure length") (auto intro: tl_dropWhile_less)

declare lines_of.simps [simp del]

text \<open>UTF-8, as \<open>std::str::from_utf8\<close> decides it.\<close>

definition tail_byte :: "nat \<Rightarrow> bool" where
  "tail_byte b \<longleftrightarrow> 0x80 \<le> b \<and> b \<le> 0xBF"

definition lead3 :: "nat \<Rightarrow> nat \<Rightarrow> bool" where
  "lead3 b c \<longleftrightarrow> b = 0xE0 \<and> 0xA0 \<le> c \<and> c \<le> 0xBF \<or> 0xE1 \<le> b \<and> b \<le> 0xEC \<and> tail_byte c
     \<or> b = 0xED \<and> 0x80 \<le> c \<and> c \<le> 0x9F \<or> 0xEE \<le> b \<and> b \<le> 0xEF \<and> tail_byte c"

definition lead4 :: "nat \<Rightarrow> nat \<Rightarrow> bool" where
  "lead4 b c \<longleftrightarrow> b = 0xF0 \<and> 0x90 \<le> c \<and> c \<le> 0xBF \<or> 0xF1 \<le> b \<and> b \<le> 0xF3 \<and> tail_byte c
     \<or> b = 0xF4 \<and> 0x80 \<le> c \<and> c \<le> 0x8F"

fun utf8_bytes :: "nat list \<Rightarrow> bool" where
  "utf8_bytes [] \<longleftrightarrow> True"
| "utf8_bytes (b # bs) \<longleftrightarrow>
     (if b < 0x80 then utf8_bytes bs
      else case bs of
             [] \<Rightarrow> False
           | c # cs \<Rightarrow>
               if 0xC2 \<le> b \<and> b \<le> 0xDF then tail_byte c \<and> utf8_bytes cs
               else case cs of
                      [] \<Rightarrow> False
                    | d # ds \<Rightarrow>
                        if lead3 b c then tail_byte d \<and> utf8_bytes ds
                        else case ds of
                               [] \<Rightarrow> False
                             | e # es \<Rightarrow> lead4 b c \<and> tail_byte d \<and> tail_byte e \<and> utf8_bytes es)"

definition utf8 :: "string \<Rightarrow> bool" where
  "utf8 s \<longleftrightarrow> utf8_bytes (map of_char s)"

text \<open>
  How the system answers a reader: whether the file opens, and at which lines reading fails. A line
  whose bytes are not UTF-8 is an error of \<open>lines\<close> in any case.
\<close>

record reads =
  rd_open :: bool
  rd_fault :: "nat \<Rightarrow> bool"

definition open_read :: "reads \<Rightarrow> string option \<Rightarrow> string option" where
  "open_read rd disk = (if rd_open rd then disk else None)"

definition read_lines :: "reads \<Rightarrow> string \<Rightarrow> string option list" where
  "read_lines rd content =
     map (\<lambda>(i, l). if rd_fault rd i \<or> \<not> utf8 l then None else Some l) (enumerate 0 (lines_of content))"

text \<open>\<open>str::trim\<close>.\<close>

definition trim :: "string \<Rightarrow> string" where
  "trim s = concat (rev (dropWhile blank (rev (dropWhile blank (chars s)))))"

section \<open>Opening, appending, reading\<close>

record ChainState =
  cs_seq :: u64
  cs_prev :: bytes
  cs_file :: bool
  cs_corrupt :: bool

fun recover_scan :: "audit_env \<Rightarrow> (u64 \<times> bytes) option \<Rightarrow> string option list \<Rightarrow> (u64 \<times> bytes) option \<times> bool" where
  "recover_scan E tip [] = (tip, True)"
| "recover_scan E tip (None # ls) = (tip, False)"
| "recover_scan E tip (Some l # ls) =
     (let line = trim l in
      if line = [] then recover_scan E tip ls
      else case au_parse E line of
             None \<Rightarrow> recover_scan E tip ls
           | Some r \<Rightarrow>
               (case from_hex32 (ri_hash r) of
                  None \<Rightarrow> recover_scan E tip ls
                | Some h \<Rightarrow> recover_scan E (Some (ri_seq r, h)) ls))"

text \<open>An absent file and one that cannot be opened are the same here.\<close>

definition recover_tip :: "audit_env \<Rightarrow> reads \<Rightarrow> string option \<Rightarrow> u64 \<times> bytes \<times> bool" where
  "recover_tip E rd disk =
     (case open_read rd disk of
        None \<Rightarrow> (0, GENESIS, True)
      | Some content \<Rightarrow>
          let (tip, clean) = recover_scan E None (read_lines rd content);
              (seq, prev) = (case tip of None \<Rightarrow> (0, GENESIS) | Some (seq, h) \<Rightarrow> (seq + 1, h))
          in (seq, prev, clean))"

text \<open>Opening for append creates the file; the system may refuse.\<close>

definition open_append :: "bool \<Rightarrow> string option \<Rightarrow> bool \<times> string option" where
  "open_append can_open disk =
     (if can_open then (True, Some (case disk of None \<Rightarrow> [] | Some content \<Rightarrow> content)) else (False, disk))"

definition sink_new ::
  "audit_env \<Rightarrow> reads \<Rightarrow> bool \<Rightarrow> string option \<Rightarrow> ChainState \<times> string option" where
  "sink_new E rd can_open disk =
     (let (seq, prev, clean) = recover_tip E rd disk;
          (opened, disk) = open_append can_open disk
      in (\<lparr>cs_seq = seq, cs_prev = prev, cs_file = opened, cs_corrupt = \<not> clean\<rparr>, disk))"

text \<open>
  \<open>write_all\<close> writes everything, or fails after some bytes: \<open>torn\<close> is their number.
\<close>

record os =
  os_open :: bool
  os_torn :: "nat option"

definition write_all :: "nat option \<Rightarrow> string \<Rightarrow> string option \<Rightarrow> bool \<times> string option" where
  "write_all torn line disk =
     (case torn of
        None \<Rightarrow> (True, map_option (\<lambda>content. content @ line) disk)
      | Some n \<Rightarrow> (False, map_option (\<lambda>content. content @ take n line) disk))"

definition sink_append ::
  "audit_env \<Rightarrow> os \<Rightarrow> AuditEvent \<Rightarrow> ChainState \<Rightarrow> string option
     \<Rightarrow> (AuditError + unit) \<times> ChainState \<times> string option" where
  "sink_append E sys event st disk =
     (case au_event E event of
        None \<Rightarrow> (Inl SerializeError, st, disk)
      | Some text \<Rightarrow>
          if cs_corrupt st then (Inl AppendError, st, disk)
          else
            let hash = record_hash E (cs_prev st) (cs_seq st) (as_bytes text)
            in case au_record E (cs_seq st) (to_hex (cs_prev st)) (to_hex hash) event of
                 None \<Rightarrow> (Inl SerializeError, st, disk)
               | Some record \<Rightarrow>
                   let line = record @ [newline];
                       (opened, disk) = (if cs_file st then (True, disk) else open_append (os_open sys) disk);
                       (wrote, disk) = (if opened then write_all (os_torn sys) line disk else (False, disk))
                   in if wrote
                      then (Inr (), st\<lparr>cs_seq := cs_seq st + 1, cs_prev := hash, cs_file := True\<rparr>, disk)
                      else (Inl AppendError, st\<lparr>cs_file := False\<rparr>, disk))"

definition sink_emit ::
  "audit_env \<Rightarrow> os \<Rightarrow> AuditEvent \<Rightarrow> ChainState \<Rightarrow> string option \<Rightarrow> ChainState \<times> string option" where
  "sink_emit E sys event st disk = snd (sink_append E sys event st disk)"

definition sink_try_emit ::
  "audit_env \<Rightarrow> os \<Rightarrow> AuditEvent \<Rightarrow> ChainState \<Rightarrow> string option
     \<Rightarrow> (AuditError + unit) \<times> ChainState \<times> string option" where
  "sink_try_emit E sys event st disk = sink_append E sys event st disk"

definition jsonl_emit :: "audit_env \<Rightarrow> os \<Rightarrow> AuditEvent \<Rightarrow> string option \<Rightarrow> string option" where
  "jsonl_emit E sys event disk =
     (case au_event E event of
        None \<Rightarrow> disk
      | Some text \<Rightarrow>
          let (opened, disk) = open_append (os_open sys) disk
          in if opened then snd (write_all (os_torn sys) (text @ [newline]) disk) else disk)"

fun verify_from :: "audit_env \<Rightarrow> bytes \<Rightarrow> u64 \<Rightarrow> string option list \<Rightarrow> VerifyError + u64" where
  "verify_from E prev expected [] = Inr expected"
| "verify_from E prev expected (None # ls) = Inl Io"
| "verify_from E prev expected (Some l # ls) =
     (let line = trim l in
      if line = [] then verify_from E prev expected ls
      else case au_parse E line of
             None \<Rightarrow> Inl (Malformed expected)
           | Some r \<Rightarrow>
               if ri_seq r \<noteq> expected then Inl (SeqGap expected (ri_seq r))
               else case from_hex32 (ri_prev r) of
                      None \<Rightarrow> Inl (Malformed (ri_seq r))
                    | Some rec_prev \<Rightarrow>
                        if rec_prev \<noteq> prev then Inl (BrokenChain (ri_seq r))
                        else
                          let recomputed = record_hash E prev (ri_seq r) (as_bytes (ri_event r))
                          in case from_hex32 (ri_hash r) of
                               None \<Rightarrow> Inl (Malformed (ri_seq r))
                             | Some stored \<Rightarrow>
                                 if recomputed \<noteq> stored then Inl (Tampered (ri_seq r))
                                 else verify_from E recomputed (expected + 1) ls)"

definition verify :: "audit_env \<Rightarrow> reads \<Rightarrow> string option \<Rightarrow> VerifyError + u64" where
  "verify E rd disk =
     (case open_read rd disk of
        None \<Rightarrow> Inl Io
      | Some content \<Rightarrow> verify_from E GENESIS 0 (read_lines rd content))"

text \<open>
  The read-only view: \<open>au_value\<close> parses the text of an event. Reading stops at the first fault, and
  when the limit is reached, which is looked at after a record was added.
\<close>

record 'v AuditTail =
  at_seq :: u64
  at_event :: 'v

fun tail_from ::
  "audit_env \<Rightarrow> (string \<Rightarrow> 'v option) \<Rightarrow> u64 \<Rightarrow> nat \<Rightarrow> string option list \<Rightarrow> 'v AuditTail list \<Rightarrow> 'v AuditTail list" where
  "tail_from E au_value since limit [] out = out"
| "tail_from E au_value since limit (None # ls) out = out"
| "tail_from E au_value since limit (Some l # ls) out =
     (let line = trim l in
      if line = [] then tail_from E au_value since limit ls out
      else case au_parse E line of
             None \<Rightarrow> tail_from E au_value since limit ls out
           | Some r \<Rightarrow>
               if ri_seq r < since then tail_from E au_value since limit ls out
               else case au_value (ri_event r) of
                      None \<Rightarrow> tail_from E au_value since limit ls out
                    | Some v \<Rightarrow>
                        let out = out @ [\<lparr>at_seq = ri_seq r, at_event = v\<rparr>]
                        in if limit \<le> length out then out else tail_from E au_value since limit ls out)"

definition read_tail ::
  "audit_env \<Rightarrow> reads \<Rightarrow> (string \<Rightarrow> 'v option) \<Rightarrow> string option \<Rightarrow> u64 \<Rightarrow> nat \<Rightarrow> 'v AuditTail list" where
  "read_tail E rd au_value disk since limit =
     (case open_read rd disk of
        None \<Rightarrow> []
      | Some content \<Rightarrow> tail_from E au_value since limit (read_lines rd content) [])"

section \<open>Text of the file\<close>

lemma lines_of_Nil [simp]: "lines_of [] = []"
  by (simp add: lines_of.simps)

lemma lines_of_line:
  assumes "newline \<notin> set l"
  shows "lines_of (l @ newline # s) = strip_cr l # lines_of s"
proof -
  have "takeWhile (\<lambda>c. c \<noteq> newline) (l @ newline # s) = l" "dropWhile (\<lambda>c. c \<noteq> newline) (l @ newline # s) = newline # s"
    using assms by (auto simp: takeWhile_append dropWhile_append)
  then show ?thesis
    by (subst lines_of.simps) simp
qed

lemma lines_of_rest: "newline \<notin> set l \<Longrightarrow> l \<noteq> [] \<Longrightarrow> lines_of l = [l]"
  by (subst lines_of.simps) (auto simp: Let_def takeWhile_eq_all_conv)

lemma chars_snoc: "\<not> continuation c \<Longrightarrow> chars (s @ [c]) = chars s @ [[c]]"
proof (induction s rule: chars.induct)
  case (2 d s)
  have "takeWhile continuation (s @ [c]) = takeWhile continuation s"
    "dropWhile continuation (s @ [c]) = dropWhile continuation s @ [c]"
    using "2.prems" by (induction s) auto
  with 2 show ?case by simp
qed simp

declare utf8_bytes.simps(2) [simp del]

lemma utf8_ascii: "ascii s \<Longrightarrow> utf8 s"
  by (induction s) (simp_all add: utf8_def utf8_bytes.simps(2))



lemma blank_brace: "\<not> blank (CHR ''{'' # s)" "\<not> blank ''}''"
proof -
  show "\<not> blank ''}''"
    by code_simp
  have "\<not> blank_bytes (123 # r)" for r
    by (cases r rule: remdups_adj.cases) (simp_all add: white1_def white2_def white3_def split: if_splits)
  then show "\<not> blank (CHR ''{'' # s)"
    by (simp add: blank_def of_char_def)
qed

lemma trim_object: "trim (CHR ''{'' # s @ ''}'') = CHR ''{'' # s @ ''}''"
proof -
  have "\<not> continuation (CHR ''}'')"
    by code_simp
  then have cs: "chars (CHR ''{'' # s @ ''}'') = chars (CHR ''{'' # s) @ [''}'']"
    using chars_snoc [of "CHR ''}''" "CHR ''{'' # s"] by simp
  have "dropWhile blank (chars (CHR ''{'' # s) @ [''}'']) = chars (CHR ''{'' # s) @ [''}'']"
    by (simp add: blank_brace)
  then have "trim (CHR ''{'' # s @ ''}'') = concat (chars (CHR ''{'' # s @ ''}''))"
    unfolding trim_def cs by (simp add: blank_brace(2))
  then show ?thesis
    by simp
qed

section \<open>Hashes in hexadecimal\<close>

lemma those_map_Some: "those (map Some xs) = Some xs"
  by (induction xs) simp_all

lemma to_hex_ascii: "ascii (to_hex bs)"
  by (induction bs) (simp_all add: to_hex_def hex_byte_def to_digit16_digit(2) byte_nibbles)

lemma length_to_hex: "length (to_hex bs) = 2 * length bs"
  by (induction bs) (simp_all add: to_hex_def hex_byte_def)

lemma drop_to_hex: "drop (2 * i) (to_hex bs) = to_hex (drop i bs)"
proof (induction bs arbitrary: i)
  case (Cons b bs)
  then show ?case by (cases i) (simp_all add: to_hex_def hex_byte_def)
qed (simp add: to_hex_def)

lemma from_hex32_to_hex:
  assumes "length bs = 32"
  shows "from_hex32 (to_hex bs) = Some bs"
proof -
  have "Option.bind (str_get (to_hex bs) (i * 2) (i * 2 + 2)) u8_from_hex = Some (bs ! i)" if "i < 32" for i
  proof -
    have "to_hex (drop i bs) = hex_byte (bs ! i) @ to_hex (drop (Suc i) bs)"
      using that assms by (simp add: to_hex_def flip: Cons_nth_drop_Suc)
    then have "take 2 (drop (i * 2) (to_hex bs)) = hex_byte (bs ! i)"
      using drop_to_hex [of i bs] by (simp add: hex_byte_def mult.commute)
    then show ?thesis
      using that assms to_hex_ascii [of bs]
      by (simp add: str_get_def str_slice_def ascii_boundary length_to_hex u8_from_hex_byte)
  qed
  then have "map (\<lambda>i. Option.bind (str_get (to_hex bs) (i * 2) (i * 2 + 2)) u8_from_hex) [0..<32] = map Some bs"
    using assms by (intro nth_equalityI) simp_all
  then show ?thesis
    by (simp only: from_hex32_def length_to_hex assms) (simp add: those_map_Some)
qed

section \<open>A log and its events\<close>

text \<open>
  What is assumed of the encoder: a record is one JSON object on one line, in UTF-8, and it parses
  to the fields it was made of and the exact text of the event; a SHA-256 hash has 32 bytes.
\<close>

definition audit_lawful :: "audit_env \<Rightarrow> bool" where
  "audit_lawful E \<longleftrightarrow>
     (\<forall>x. length (au_sha256 E x) = 32)
   \<and> (\<forall>seq prev hash event line. au_record E seq prev hash event = Some line \<longrightarrow>
        (\<exists>body text. line = CHR ''{'' # body @ ''}'' \<and> newline \<notin> set body \<and> utf8 line
           \<and> au_event E event = Some text
           \<and> au_parse E line = Some \<lparr>ri_seq = seq, ri_prev = prev, ri_hash = hash, ri_event = text\<rparr>))"

fun chain_lines :: "audit_env \<Rightarrow> bytes \<Rightarrow> u64 \<Rightarrow> AuditEvent list \<Rightarrow> (string list \<times> bytes) option" where
  "chain_lines E prev seq [] = Some ([], prev)"
| "chain_lines E prev seq (event # events) =
     Option.bind (au_event E event) (\<lambda>text.
       let hash = record_hash E prev seq (as_bytes text) in
       Option.bind (au_record E seq (to_hex prev) (to_hex hash) event) (\<lambda>line.
       Option.bind (chain_lines E hash (seq + 1) events) (\<lambda>(ls, tip). Some (line # ls, tip))))"

definition file_of :: "string list \<Rightarrow> string" where
  "file_of ls = concat (map (\<lambda>l. l @ [newline]) ls)"

fun records :: "audit_env \<Rightarrow> string option list \<Rightarrow> RecordIn list" where
  "records E (Some l # ls) =
     (if trim l = [] then records E ls
      else case au_parse E (trim l) of None \<Rightarrow> records E ls | Some r \<Rightarrow> r # records E ls)"
| "records E _ = []"

lemma lawful_hash: "audit_lawful E \<Longrightarrow> length (record_hash E prev seq x) = 32"
  by (simp add: audit_lawful_def record_hash_def)

lemma lawful_line:
  assumes "audit_lawful E" "au_record E seq prev hash event = Some line"
  obtains body doc where "line = CHR ''{'' # body @ ''}''" "newline \<notin> set body" "au_event E event = Some doc"
    "au_parse E line = Some \<lparr>ri_seq = seq, ri_prev = prev, ri_hash = hash, ri_event = doc\<rparr>"
  using assms unfolding audit_lawful_def by blast

lemma lawful_text:
  assumes "audit_lawful E" "au_record E seq prev hash event = Some line"
  shows "trim line = line" "line \<noteq> []" "newline \<notin> set line" "strip_cr line = line" "utf8 line"
proof -
  obtain body where line: "line = CHR ''{'' # body @ ''}''" "newline \<notin> set body" "utf8 line"
    using assms unfolding audit_lawful_def by blast
  then show "trim line = line"
    using trim_object by simp
  show "line \<noteq> []" "newline \<notin> set line" "strip_cr line = line" "utf8 line"
    using line by (auto simp: strip_cr_def newline_def)
qed

lemma chain_lines_Cons:
  "chain_lines E prev seq (event # events) = Some (ls, tip) \<longleftrightarrow>
     (\<exists>doc line ls'. au_event E event = Some doc
       \<and> au_record E seq (to_hex prev) (to_hex (record_hash E prev seq (as_bytes doc))) event = Some line
       \<and> chain_lines E (record_hash E prev seq (as_bytes doc)) (seq + 1) events = Some (ls', tip) \<and> ls = line # ls')"
  by (auto simp: Let_def bind_eq_Some_conv)

declare chain_lines.simps(2) [simp del]

lemma chain_lines_snoc:
  assumes "chain_lines E prev seq events = Some (ls, tip)" "au_event E event = Some doc"
    and "au_record E (seq + of_nat (length events)) (to_hex tip)
      (to_hex (record_hash E tip (seq + of_nat (length events)) (as_bytes doc))) event = Some line"
  shows "chain_lines E prev seq (events @ [event]) =
    Some (ls @ [line], record_hash E tip (seq + of_nat (length events)) (as_bytes doc))"
  using assms
proof (induction events arbitrary: prev seq ls)
  case (Cons e es)
  from Cons.prems(1) obtain doc' line' ls' where e: "au_event E e = Some doc'"
    "au_record E seq (to_hex prev) (to_hex (record_hash E prev seq (as_bytes doc'))) e = Some line'"
    "chain_lines E (record_hash E prev seq (as_bytes doc')) (seq + 1) es = Some (ls', tip)" "ls = line' # ls'"
    unfolding chain_lines_Cons by blast
  have shift: "seq + of_nat (length (e # es)) = (seq + 1) + of_nat (length es)"
    by simp
  from Cons.IH [OF e(3) Cons.prems(2,3) [unfolded shift]] e show ?case
    unfolding shift append_Cons chain_lines_Cons by auto
qed (simp add: chain_lines_Cons)

lemma chain_lines_text:
  assumes "audit_lawful E" "chain_lines E prev seq events = Some (ls, tip)" "l \<in> set ls"
  shows "trim l = l" "l \<noteq> []" "newline \<notin> set l" "strip_cr l = l" "utf8 l"
proof -
  have "\<exists>seq prev hash event. au_record E seq prev hash event = Some l"
    using assms(2,3)
  proof (induction events arbitrary: prev seq ls)
    case (Cons e es)
    from Cons.prems(1) obtain line ls' prev' seq' hash where "ls = line # ls'" "chain_lines E prev' (seq + 1) es = Some (ls', tip)"
      "au_record E seq' hash (to_hex prev') e = Some line"
      unfolding chain_lines_Cons by blast
    with Cons show ?case by auto
  qed simp
  then obtain seq' prev' hash event where "au_record E seq' prev' hash event = Some l"
    by blast
  from lawful_text [OF assms(1) this] show "trim l = l" "l \<noteq> []" "newline \<notin> set l" "strip_cr l = l" "utf8 l" .
qed

lemma lines_of_file:
  assumes "\<And>l. l \<in> set ls \<Longrightarrow> newline \<notin> set l \<and> strip_cr l = l"
  shows "lines_of (file_of ls @ s) = ls @ lines_of s"
  using assms
proof (induction ls)
  case (Cons l ls)
  then show ?case
    using lines_of_line [of l "file_of ls @ s"] by (simp add: file_of_def)
qed (simp add: file_of_def)

definition readable :: reads where
  "readable = \<lparr>rd_open = True, rd_fault = (\<lambda>_. False)\<rparr>"

lemma readable_simps [simp]: "rd_open readable" "\<not> rd_fault readable i" "open_read readable disk = disk"
  by (simp_all add: readable_def open_read_def)

lemma enumerate_readable:
  "map (\<lambda>(i, l). if rd_fault readable i \<or> \<not> utf8 l then None else Some l) (enumerate n ls) =
     map (\<lambda>l. if utf8 l then Some l else None) ls"
  by (induction ls arbitrary: n) simp_all

lemma read_lines_readable:
  "read_lines readable content = map (\<lambda>l. if utf8 l then Some l else None) (lines_of content)"
  by (simp only: read_lines_def enumerate_readable)

lemma read_lines_clean:
  assumes "None \<notin> set (read_lines rd content)"
  shows "read_lines rd content = map Some (lines_of content)"
proof -
  have "None \<notin> set (map (\<lambda>(i, l). if p i l then None else Some l) (enumerate n ls)) \<Longrightarrow>
      map (\<lambda>(i, l). if p i l then None else Some l) (enumerate n ls) = map Some ls" for p n and ls :: "string list"
    by (induction ls arbitrary: n) (auto split: if_splits)
  from this [of "\<lambda>i l. rd_fault rd i \<or> \<not> utf8 l" 0 "lines_of content"] assms show ?thesis
    unfolding read_lines_def by blast
qed

lemma lines_of_chain:
  assumes "audit_lawful E" "chain_lines E prev seq events = Some (ls, tip)"
  shows "lines_of (file_of ls @ s) = ls @ lines_of s"
  using lines_of_file [of ls s] chain_lines_text [OF assms] by simp

lemma read_chain:
  assumes "audit_lawful E" "chain_lines E prev seq events = Some (ls, tip)"
  shows "read_lines readable (file_of ls @ s) = map Some ls @ read_lines readable s"
  using lines_of_chain [OF assms] chain_lines_text(5) [OF assms] by (simp add: read_lines_readable)

lemma read_lines_Nil [simp]: "read_lines rd [] = []"
  by (simp add: read_lines_def)

lemma chain_ConsE:
  assumes "audit_lawful E" "chain_lines E prev seq (e # es) = Some (ls, tip)"
  obtains doc line ls' where "au_event E e = Some doc" "ls = line # ls'" "trim line = line" "line \<noteq> []"
    "chain_lines E (record_hash E prev seq (as_bytes doc)) (seq + 1) es = Some (ls', tip)"
    "au_parse E line = Some \<lparr>ri_seq = seq, ri_prev = to_hex prev,
       ri_hash = to_hex (record_hash E prev seq (as_bytes doc)), ri_event = doc\<rparr>"
proof -
  obtain doc line ls' where e: "au_event E e = Some doc"
    and line: "au_record E seq (to_hex prev) (to_hex (record_hash E prev seq (as_bytes doc))) e = Some line"
    and rest: "chain_lines E (record_hash E prev seq (as_bytes doc)) (seq + 1) es = Some (ls', tip)" "ls = line # ls'"
    using assms(2) unfolding chain_lines_Cons by blast
  have "au_parse E line = Some \<lparr>ri_seq = seq, ri_prev = to_hex prev,
      ri_hash = to_hex (record_hash E prev seq (as_bytes doc)), ri_event = doc\<rparr>"
    using lawful_line [OF assms(1) line] e by (metis option.inject)
  with that e rest lawful_text [OF assms(1) line] show ?thesis
    by blast
qed

lemma verify_chain:
  assumes "audit_lawful E" "chain_lines E prev seq events = Some (ls, tip)" "length prev = 32"
  shows "verify_from E prev seq (map Some ls @ xs) = verify_from E tip (seq + of_nat (length events)) xs"
  using assms(2,3)
proof (induction events arbitrary: prev seq ls)
  case (Cons e es)
  from chain_ConsE [OF assms(1) Cons.prems(1)] obtain doc line ls' where step:
    "ls = line # ls'" "trim line = line" "line \<noteq> []"
    "chain_lines E (record_hash E prev seq (as_bytes doc)) (seq + 1) es = Some (ls', tip)"
    "au_parse E line = Some \<lparr>ri_seq = seq, ri_prev = to_hex prev,
       ri_hash = to_hex (record_hash E prev seq (as_bytes doc)), ri_event = doc\<rparr>"
    by metis
  show ?case
    using Cons.IH [OF step(4) lawful_hash [OF assms(1)]] Cons.prems(2) step
    by (simp add: from_hex32_to_hex lawful_hash [OF assms(1)] add.assoc)
qed simp

lemma recover_chain:
  assumes "audit_lawful E" "chain_lines E prev seq events = Some (ls, tip)"
  shows "recover_scan E t (map Some ls @ xs) =
    recover_scan E (if events = [] then t else Some (seq + of_nat (length events) - 1, tip)) xs"
  using assms(2)
proof (induction events arbitrary: prev seq ls t)
  case (Cons e es)
  from chain_ConsE [OF assms(1) Cons.prems(1)] obtain doc line ls' where step:
    "ls = line # ls'" "trim line = line" "line \<noteq> []"
    "chain_lines E (record_hash E prev seq (as_bytes doc)) (seq + 1) es = Some (ls', tip)"
    "au_parse E line = Some \<lparr>ri_seq = seq, ri_prev = to_hex prev,
       ri_hash = to_hex (record_hash E prev seq (as_bytes doc)), ri_event = doc\<rparr>"
    by metis
  have "tip = record_hash E prev seq (as_bytes doc)" if "es = []"
    using step(4) that by simp
  with Cons.IH [OF step(4)] step show ?case
    by (auto simp: from_hex32_to_hex lawful_hash [OF assms(1)] add.assoc)
qed simp


section \<open>Runs\<close>

text \<open>
  A run of the sink: events are emitted, and the process restarts, with what the system then answers
  to reading and to opening for append. The first component collects the events for which the sink
  reported success.
\<close>

datatype audit_call =
    TryEmit os AuditEvent
  | Restart reads bool

fun audit_exec ::
  "audit_env \<Rightarrow> audit_call \<Rightarrow> AuditEvent list \<times> ChainState \<times> string option
     \<Rightarrow> AuditEvent list \<times> ChainState \<times> string option" where
  "audit_exec E (TryEmit sys event) (events, st, disk) =
     (case sink_try_emit E sys event st disk of
        (Inr _, st, disk) \<Rightarrow> (events @ [event], st, disk)
      | (Inl _, st, disk) \<Rightarrow> (events, st, disk))"
| "audit_exec E (Restart rd can_open) (events, st, disk) = (events, sink_new E rd can_open disk)"

definition audit_run ::
  "audit_env \<Rightarrow> audit_call list \<Rightarrow> AuditEvent list \<times> ChainState \<times> string option
     \<Rightarrow> AuditEvent list \<times> ChainState \<times> string option" where
  "audit_run E calls = fold (audit_exec E) calls"

text \<open>
  No write stops within its line, and a restart may open the file for reading; lines may still fail
  to be read, and opening for append and writing may fail.
\<close>

fun whole_calls :: "audit_call \<Rightarrow> bool" where
  "whole_calls (TryEmit sys event) \<longleftrightarrow> os_torn sys \<in> {None, Some 0}"
| "whole_calls (Restart rd can_open) \<longleftrightarrow> rd_open rd"

text \<open>The file is the chain of the events; a sink that is not corrupt is at its end.\<close>

fun log_inv :: "audit_env \<Rightarrow> AuditEvent list \<times> ChainState \<times> string option \<Rightarrow> bool" where
  "log_inv E (events, st, disk) \<longleftrightarrow>
     (\<exists>ls tip. chain_lines E GENESIS 0 events = Some (ls, tip)
        \<and> (disk = Some (file_of ls) \<or> disk = None \<and> events = [] \<and> \<not> cs_file st)
        \<and> (cs_corrupt st \<or> cs_seq st = of_nat (length events) \<and> cs_prev st = tip))"

lemma recover_scan_clean: "snd (recover_scan E t ls) \<longleftrightarrow> None \<notin> set ls"
  by (induction E t ls rule: recover_scan.induct) (auto simp: Let_def split: option.splits)

lemma recovers_chain:
  assumes "audit_lawful E" "chain_lines E GENESIS 0 events = Some (ls, tip)"
  shows "recover_tip E readable (Some (file_of ls)) = (of_nat (length events), tip, True)"
    and "rd_open rd \<Longrightarrow> recover_tip E rd (Some (file_of ls)) = (seq, prev, True)
      \<Longrightarrow> seq = of_nat (length events) \<and> prev = tip"
proof -
  have scan: "recover_scan E None (map Some ls) =
      (if events = [] then None else Some (of_nat (length events) - 1, tip), True)"
    using recover_chain [OF assms, of None "[]"] by simp
  have tip: "tip = GENESIS" if "events = []"
    using assms(2) that by simp
  show "recover_tip E readable (Some (file_of ls)) = (of_nat (length events), tip, True)"
    using scan tip read_chain [OF assms, of "[]"] by (auto simp: recover_tip_def)
  assume rd: "rd_open rd" "recover_tip E rd (Some (file_of ls)) = (seq, prev, True)"
  then have "snd (recover_scan E None (read_lines rd (file_of ls)))"
    by (auto simp: recover_tip_def open_read_def split: prod.splits option.splits)
  then have "read_lines rd (file_of ls) = map Some ls"
    using read_lines_clean [of rd "file_of ls"] lines_of_chain [OF assms, of "[]"]
    by (simp add: recover_scan_clean)
  then show "seq = of_nat (length events) \<and> prev = tip"
    using scan tip rd by (auto simp: recover_tip_def open_read_def split: if_splits)
qed

lemma log_start:
  assumes "audit_lawful E"
  shows "log_inv E ([], sink_new E rd can_open None)"
  by (simp add: sink_new_def recover_tip_def open_read_def open_append_def file_of_def)

lemma log_restart:
  assumes "audit_lawful E" "log_inv E (events, st, disk)" "rd_open rd"
  shows "log_inv E (events, sink_new E rd can_open disk)"
proof (cases disk)
  case None
  then show ?thesis
    using assms log_start [OF assms(1)] by auto
next
  case (Some content)
  obtain ls tip where ls: "chain_lines E GENESIS 0 events = Some (ls, tip)" "content = file_of ls"
    using assms(2) Some by auto
  obtain seq prev clean where tip: "recover_tip E rd (Some content) = (seq, prev, clean)"
    by (metis surj_pair)
  with recovers_chain(2) [OF assms(1) ls(1) assms(3), of seq prev] ls show ?thesis
    by (cases clean) (auto simp: sink_new_def open_append_def Some)
qed

text \<open>An append either reports success and adds one line, or reports an error.\<close>

lemma sink_append_cases:
  assumes "log_inv E (events, st, disk)" "sink_append E sys event st disk = (res, st', disk')"
  obtains (written) doc line ls where "res = Inr ()" "au_event E event = Some doc" "\<not> cs_corrupt st"
      "chain_lines E GENESIS 0 events = Some (ls, cs_prev st)"
      "au_record E (cs_seq st) (to_hex (cs_prev st)) (to_hex (record_hash E (cs_prev st) (cs_seq st) (as_bytes doc))) event = Some line"
      "st' = st\<lparr>cs_seq := cs_seq st + 1, cs_prev := record_hash E (cs_prev st) (cs_seq st) (as_bytes doc), cs_file := True\<rparr>"
      "disk' = Some (file_of (ls @ [line]))"
    | (refused) e where "res = Inl e" "st' = st \<or> st' = st\<lparr>cs_file := False\<rparr>" "disk' = disk"
    | (torn) ls line n where "res = Inl AppendError" "os_torn sys = Some n" "st' = st\<lparr>cs_file := False\<rparr>"
      "chain_lines E GENESIS 0 events = Some (ls, cs_prev st)" "disk' = Some (file_of ls @ take n (line @ [newline]))"
proof (cases "cs_corrupt st")
  case True
  with assms(2) show ?thesis
    by (auto simp: sink_append_def split: option.splits intro: refused)
next
  case False
  obtain ls where ls: "chain_lines E GENESIS 0 events = Some (ls, cs_prev st)"
    "disk = Some (file_of ls) \<or> disk = None \<and> events = [] \<and> \<not> cs_file st"
    using assms(1) False by auto
  have none: "ls = []" if "disk = None"
    using ls that by auto
  show ?thesis
    using assms(2) ls none False
    by (auto simp: sink_append_def Let_def open_append_def write_all_def file_of_def
        split: option.splits if_splits prod.splits intro: written refused torn)
qed

lemma log_emit:
  assumes "audit_lawful E" "log_inv E (events, st, disk)" "os_torn sys \<in> {None, Some 0}"
  shows "log_inv E (audit_exec E (TryEmit sys event) (events, st, disk))"
proof -
  obtain res st' disk' where append: "sink_append E sys event st disk = (res, st', disk')"
    by (metis surj_pair)
  from assms(2) append show ?thesis
  proof (cases rule: sink_append_cases)
    case (written doc line ls)
    with assms(2) chain_lines_snoc [OF written(4,2), of line] append show ?thesis
      by (auto simp: sink_try_emit_def add.commute)
  next
    case (refused e)
    with assms(2) append show ?thesis
      by (auto simp: sink_try_emit_def)
  next
    case (torn ls line n)
    with assms(2,3) append show ?thesis
      by (auto simp: sink_try_emit_def)
  qed
qed

lemma log_run:
  assumes "audit_lawful E" "log_inv E s" "list_all whole_calls calls"
  shows "log_inv E (audit_run E calls s)"
  using assms(2,3)
proof (induction calls arbitrary: s)
  case (Cons c calls)
  obtain events st disk where s: "s = (events, st, disk)"
    by (metis surj_pair)
  have "log_inv E (audit_exec E c s)"
    using Cons.prems log_emit [OF assms(1)] log_restart [OF assms(1)] unfolding s
    by (cases c) (auto simp del: log_inv.simps)
  with Cons show ?case
    by (simp add: audit_run_def)
qed (simp add: audit_run_def)

section \<open>What a log that verifies proves\<close>

fun preimages :: "audit_env \<Rightarrow> bytes \<Rightarrow> u64 \<Rightarrow> RecordIn list \<Rightarrow> bytes list" where
  "preimages E prev seq [] = []"
| "preimages E prev seq (r # rs) =
     (prev @ u64_to_be_bytes seq @ as_bytes (ri_event r))
       # preimages E (record_hash E prev seq (as_bytes (ri_event r))) (seq + 1) rs"

fun linked :: "audit_env \<Rightarrow> bytes \<Rightarrow> u64 \<Rightarrow> RecordIn list \<Rightarrow> bool" where
  "linked E prev seq [] \<longleftrightarrow> True"
| "linked E prev seq (r # rs) \<longleftrightarrow>
     from_hex32 (ri_hash r) = Some (record_hash E prev seq (as_bytes (ri_event r)))
   \<and> linked E (record_hash E prev seq (as_bytes (ri_event r))) (seq + 1) rs"

lemma verify_linked:
  "verify_from E prev seq ls = Inr n \<Longrightarrow>
     linked E prev seq (records E ls) \<and> n = seq + of_nat (length (records E ls))"
proof (induction E prev seq ls rule: verify_from.induct)
  case (3 E prev expected l ls)
  then show ?case
    by (auto simp: Let_def add.assoc split: if_splits option.splits)
qed auto

lemma verify_take: "verify_from E prev seq ls = Inr n \<Longrightarrow> \<exists>m. verify_from E prev seq (take k ls) = Inr m"
proof (induction E prev seq ls arbitrary: k rule: verify_from.induct)
  case (3 E prev expected l ls)
  then show ?case
    by (cases k) (auto simp: Let_def split: if_splits option.splits)
qed auto

lemma as_bytes_inj: "as_bytes s = as_bytes t \<longleftrightarrow> s = t"
proof -
  have "inj (\<lambda>c. word_of_nat (of_char c) :: u8)"
  proof (rule injI)
    fix c d :: char
    assume "(word_of_nat (of_char c) :: u8) = word_of_nat (of_char d)"
    then have "unat (word_of_nat (of_char c) :: u8) = unat (word_of_nat (of_char d) :: u8)"
      by simp
    then have "(of_char c :: nat) mod 256 = of_char d mod 256"
      by (simp add: unat_of_nat)
    then show "c = d"
      by (simp add: char_of_eq_iff [symmetric])
  qed
  then show ?thesis
    unfolding as_bytes_def by (simp add: inj_map_eq_map)
qed

definition clash :: "audit_env \<Rightarrow> bytes list \<Rightarrow> bytes list \<Rightarrow> bool" where
  "clash E xs ys \<longleftrightarrow> (\<exists>x \<in> set xs. \<exists>y \<in> set ys. x \<noteq> y \<and> au_sha256 E x = au_sha256 E y)"

lemma same_record:
  assumes "record_hash E p seq (as_bytes d) = record_hash E q seq (as_bytes e)" "length p = length q"
  shows "p = q \<and> d = e \<or> clash E (((p @ u64_to_be_bytes seq @ as_bytes d)) # xs) (((q @ u64_to_be_bytes seq @ as_bytes e)) # ys)"
  using assms by (auto simp: clash_def record_hash_def as_bytes_inj)

lemma linked_agree:
  assumes "audit_lawful E" "length rs = length qs" "linked E p seq rs" "linked E q seq qs" "length p = length q"
    and "rs \<noteq> []" "ri_hash (last rs) = ri_hash (last qs)"
  shows "p = q \<and> map ri_event rs = map ri_event qs \<or> clash E (preimages E p seq rs) (preimages E q seq qs)"
  using assms(2-)
proof (induction rs qs arbitrary: p q seq rule: list_induct2)
  case (Cons r rs s qs)
  let ?h = "record_hash E p seq (as_bytes (ri_event r))" and ?k = "record_hash E q seq (as_bytes (ri_event s))"
  have "?h = ?k \<and> map ri_event rs = map ri_event qs
      \<or> clash E (preimages E ?h (seq + 1) rs) (preimages E ?k (seq + 1) qs)"
  proof (cases "rs = []")
    case True
    then show ?thesis using Cons by auto
  next
    case False
    with Cons.hyps have "qs \<noteq> []" by auto
    with False Cons.prems Cons.IH [of ?h "seq + 1" ?k] show ?thesis
      by (simp add: lawful_hash [OF assms(1)])
  qed
  with same_record [of E p seq "ri_event r" q "ri_event s"] Cons.prems(3) show ?case
    by (auto simp: clash_def)
qed simp

section \<open>A sample log\<close>

definition sample_audit_event :: AuditEvent where
  "sample_audit_event = audit_vault ''t'' ''n'' None \<lparr>ac_label = ''a'', ac_kind = System, ac_id = None, ac_tenant = None\<rparr>
     ''ssh.sign'' \<lparr>tg_kind = ''k'', tg_id = None\<rparr> Success None"

definition plain :: "string \<Rightarrow> bool" where
  "plain s \<longleftrightarrow> CHR '','' \<notin> set s \<and> newline \<notin> set s \<and> ascii s"

definition sample_audit_env :: audit_env where
  "sample_audit_env =
     \<lparr>au_sha256 = (\<lambda>x. take 32 (rev x @ replicate 32 0)),
      au_event = (\<lambda>e. Some (ae_action e)),
      au_record = (\<lambda>seq prev hash e.
        if plain prev \<and> plain hash \<and> plain (ae_action e)
        then Some (''{'' @ replicate (unat seq) CHR ''1'' @ '','' @ prev @ '','' @ hash @ '','' @ ae_action e @ ''}'')
        else None),
      au_parse = (\<lambda>s. case split_on CHR '','' (butlast (tl s)) of
        [n, prev, hash, text] \<Rightarrow>
          if hd s = CHR ''{'' then Some \<lparr>ri_seq = of_nat (length n), ri_prev = prev, ri_hash = hash, ri_event = text\<rparr> else None
      | _ \<Rightarrow> None)\<rparr>"

lemma sample_audit_lawful: "audit_lawful sample_audit_env"
proof -
  have "\<exists>body text. line = CHR ''{'' # body @ ''}'' \<and> newline \<notin> set body \<and> utf8 line
      \<and> au_event sample_audit_env event = Some text
      \<and> au_parse sample_audit_env line = Some \<lparr>ri_seq = seq, ri_prev = prev, ri_hash = hash, ri_event = text\<rparr>"
    if rec: "au_record sample_audit_env seq prev hash event = Some line" for seq prev hash event line
  proof -
    let ?body = "replicate (unat seq) CHR ''1'' @ '','' @ prev @ '','' @ hash @ '','' @ ae_action event"
    have line: "line = CHR ''{'' # ?body @ ''}''" "plain prev" "plain hash" "plain (ae_action event)"
      using rec by (auto simp: sample_audit_env_def split: if_splits)
    have "split_on CHR '','' ?body = [replicate (unat seq) CHR ''1'', prev, hash, ae_action event]"
      using line(2-4) by (simp add: split_on_append split_on_free plain_def)
    moreover have "butlast (tl line) = ?body"
      by (simp add: line(1) butlast_append)
    ultimately have "au_parse sample_audit_env line =
        Some \<lparr>ri_seq = seq, ri_prev = prev, ri_hash = hash, ri_event = ae_action event\<rparr>"
      by (simp add: sample_audit_env_def line(1))
    moreover have "newline \<notin> set ?body"
      using line(2-4) by (auto simp: plain_def newline_def)
    moreover have "ascii line"
      using line by (auto simp: plain_def ascii_def list_all_iff)
    then have "utf8 line"
      by (rule utf8_ascii)
    ultimately show ?thesis
      using line(1) by (auto simp: sample_audit_env_def)
  qed
  moreover have "length (au_sha256 sample_audit_env x) = 32" for x
    by (simp add: sample_audit_env_def)
  ultimately show ?thesis
    unfolding audit_lawful_def by blast
qed

definition sample_audit_calls :: "audit_call list" where
  "sample_audit_calls =
     [TryEmit \<lparr>os_open = True, os_torn = None\<rparr> sample_audit_event,
      TryEmit \<lparr>os_open = True, os_torn = Some 0\<rparr> sample_audit_event, Restart readable True]"

definition sample_log :: "AuditEvent list \<times> ChainState \<times> string option" where
  "sample_log = audit_run sample_audit_env sample_audit_calls ([], sink_new sample_audit_env readable True None)"

lemma sample_whole_calls: "list_all whole_calls sample_audit_calls"
  by (simp add: sample_audit_calls_def)

text \<open>The line that an append would write next.\<close>

definition next_line :: "audit_env \<Rightarrow> ChainState \<Rightarrow> AuditEvent \<Rightarrow> string option" where
  "next_line E st event =
     Option.bind (au_event E event) (\<lambda>doc.
       au_record E (cs_seq st) (to_hex (cs_prev st)) (to_hex (record_hash E (cs_prev st) (cs_seq st) (as_bytes doc))) event)"

lemma next_line_Some:
  assumes "next_line E st event = Some line"
  obtains doc where "au_event E event = Some doc" "au_record E (cs_seq st) (to_hex (cs_prev st))
    (to_hex (record_hash E (cs_prev st) (cs_seq st) (as_bytes doc))) event = Some line"
  using assms by (auto simp: next_line_def bind_eq_Some_conv)


lemma append_whole:
  assumes "next_line E st event = Some line" "\<not> cs_corrupt st"
  shows "\<exists>st'. sink_append E \<lparr>os_open = True, os_torn = None\<rparr> event st (Some content) =
    (Inr (), st', Some (content @ line @ [newline]))"
  using assms
  by (auto simp: sink_append_def Let_def open_append_def write_all_def elim!: next_line_Some)


lemma sample_log_shape:
  "\<exists>st content. sample_log = ([sample_audit_event], st, Some content)"
proof -
  have "fst sample_log = [sample_audit_event] \<and> snd (snd sample_log) \<noteq> None"
    by code_simp
  then obtain content where "fst sample_log = [sample_audit_event]" "snd (snd sample_log) = Some content"
    by blast
  then show ?thesis
    by (metis prod.collapse)
qed


section \<open>Properties\<close>





text \<open>
  C40. A restart that may not read the file forks the log. If the file holds records and the process
  restarts while it cannot be opened for reading, but can be opened for append, the sink starts at
  number zero with the first hash and does not refuse; the next event is written and reported as
  successful, and the log no longer verifies: its number zero stands where the next number belongs.
\<close>

theorem unreadable_restart_forks_log:
  assumes "audit_lawful E" "list_all whole_calls calls"
    and "audit_run E calls ([], sink_new E rd can_open None) = (events, st, Some content)"
    and "(of_nat (length events) :: u64) \<noteq> 0" "\<not> rd_open rd'"
    and "sink_new E rd' True (Some content) = (st1, disk1)" "next_line E st1 event = Some line"
  shows "\<exists>st2 disk2. sink_try_emit E \<lparr>os_open = True, os_torn = None\<rparr> event st1 disk1 = (Inr (), st2, disk2)
    \<and> cs_seq st1 = 0 \<and> cs_prev st1 = GENESIS
    \<and> verify E readable disk2 = Inl (SeqGap (of_nat (length events)) 0)"
proof -
  have inv: "log_inv E (events, st, Some content)"
    using log_run [OF assms(1) log_start [OF assms(1), of rd can_open] assms(2)] unfolding assms(3) .
  then obtain ls tip where ls: "chain_lines E GENESIS 0 events = Some (ls, tip)" "content = file_of ls"
    by auto
  have st1: "cs_seq st1 = 0" "cs_prev st1 = GENESIS" "\<not> cs_corrupt st1" "disk1 = Some content"
    using assms(5,6) by (auto simp: sink_new_def recover_tip_def open_read_def open_append_def)
  obtain st2 where append: "sink_append E \<lparr>os_open = True, os_torn = None\<rparr> event st1 disk1 =
      (Inr (), st2, Some (content @ line @ [newline]))"
    using append_whole [OF assms(7) st1(3), of content] st1(4) by auto
  obtain doc where doc: "au_record E 0 (to_hex GENESIS) (to_hex (record_hash E GENESIS 0 (as_bytes doc))) event = Some line"
    using assms(7) st1 by (auto elim: next_line_Some)
  note line = lawful_text [OF assms(1) doc]
  have "read_lines readable (content @ line @ [newline]) = map Some ls @ [Some line]"
    using read_chain [OF assms(1) ls(1), of "line @ [newline]"] line lines_of_line [OF line(3), of "[]"]
    by (simp add: ls(2) read_lines_readable)
  moreover have "\<exists>r. au_parse E line = Some r \<and> ri_seq r = 0"
    using lawful_line [OF assms(1) doc] by (metis RecordIn.select_convs(1))
  ultimately have "verify E readable (Some (content @ line @ [newline])) = Inl (SeqGap (of_nat (length events)) 0)"
    using verify_chain [OF assms(1) ls(1), of "[Some line]"] line assms(4)
    by (auto simp: verify_def GENESIS_def)
  with append st1 show ?thesis
    unfolding sink_try_emit_def by blast
qed

definition sample_unreadable :: reads where
  "sample_unreadable = \<lparr>rd_open = False, rd_fault = (\<lambda>_. False)\<rparr>"

theorem unreadable_restart_forks_log_witness:
  "\<exists>st content st1 disk1 st2 disk2. sample_log = ([sample_audit_event], st, Some content)
    \<and> sink_new sample_audit_env sample_unreadable True (Some content) = (st1, disk1)
    \<and> sink_try_emit sample_audit_env \<lparr>os_open = True, os_torn = None\<rparr> sample_audit_event st1 disk1 = (Inr (), st2, disk2)
    \<and> verify sample_audit_env readable disk2 = Inl (SeqGap 1 0)"
proof -
  obtain st content where log: "sample_log = ([sample_audit_event], st, Some content)"
    using sample_log_shape by auto
  let ?st = "\<lparr>cs_seq = 0, cs_prev = GENESIS, cs_file = True, cs_corrupt = False\<rparr>"
  have new: "sink_new sample_audit_env sample_unreadable True (Some content) = (?st, Some content)"
    by (simp add: sink_new_def recover_tip_def open_read_def open_append_def sample_unreadable_def)
  have "next_line sample_audit_env ?st sample_audit_event \<noteq> None"
    by code_simp
  then obtain line where "next_line sample_audit_env ?st sample_audit_event = Some line"
    by blast
  from unreadable_restart_forks_log [OF sample_audit_lawful sample_whole_calls log [unfolded sample_log_def] _ _ new this]
  obtain st2 disk2 where
    "sink_try_emit sample_audit_env \<lparr>os_open = True, os_torn = None\<rparr> sample_audit_event ?st (Some content) = (Inr (), st2, disk2)"
    "verify sample_audit_env readable disk2 = Inl (SeqGap 1 0)"
    by (auto simp: sample_unreadable_def)
  with log new show ?thesis
    by blast
qed

text \<open>
  C39. What verification proves. Two files that both verify, have equally many records and the same
  last hash hold the same events in the same order, or the inputs of the hashes in the two files
  contain a collision. But every beginning of a file that verifies verifies as well: removing the
  last records is not detected.
\<close>

theorem verified_logs_agree:
  assumes "audit_lawful E" "verify E rd (Some f) = Inr n" "verify E rd' (Some g) = Inr m"
  shows "(length (records E (read_lines rd f)) = length (records E (read_lines rd' g))
      \<and> records E (read_lines rd f) \<noteq> []
      \<and> ri_hash (last (records E (read_lines rd f))) = ri_hash (last (records E (read_lines rd' g)))
      \<longrightarrow> map ri_event (records E (read_lines rd f)) = map ri_event (records E (read_lines rd' g))
        \<or> clash E (preimages E GENESIS 0 (records E (read_lines rd f)))
            (preimages E GENESIS 0 (records E (read_lines rd' g))))
    \<and> (\<exists>k. verify_from E GENESIS 0 (take i (read_lines rd f)) = Inr k)"
proof -
  have ok: "verify_from E GENESIS 0 (read_lines rd f) = Inr n" "verify_from E GENESIS 0 (read_lines rd' g) = Inr m"
    using assms(2,3) by (auto simp: verify_def open_read_def split: if_splits)
  show ?thesis
    using linked_agree [OF assms(1) _ conjunct1 [OF verify_linked [OF ok(1)]] conjunct1 [OF verify_linked [OF ok(2)]] refl]
      verify_take [OF ok(1)] by blast
qed

theorem verified_logs_agree_witness:
  "\<exists>content. snd (snd sample_log) = Some content
    \<and> length (records sample_audit_env (read_lines readable content)) = 1
    \<and> (map ri_event (records sample_audit_env (read_lines readable content)) =
         map ri_event (records sample_audit_env (read_lines readable (newline # content)))
       \<or> clash sample_audit_env (preimages sample_audit_env GENESIS 0 (records sample_audit_env (read_lines readable content)))
           (preimages sample_audit_env GENESIS 0 (records sample_audit_env (read_lines readable (newline # content)))))
    \<and> (\<exists>k. verify_from sample_audit_env GENESIS 0 (take 0 (read_lines readable content)) = Inr k)"
proof -
  obtain st content where log: "sample_log = ([sample_audit_event], st, Some content)"
    using sample_log_shape by auto
  have "case snd (snd sample_log) of None \<Rightarrow> False | Some content \<Rightarrow>
      verify sample_audit_env readable (Some content) = Inr 1
    \<and> verify sample_audit_env readable (Some (newline # content)) = Inr 1
    \<and> length (records sample_audit_env (read_lines readable content)) = 1
    \<and> length (records sample_audit_env (read_lines readable (newline # content))) = 1
    \<and> ri_hash (last (records sample_audit_env (read_lines readable content))) =
       ri_hash (last (records sample_audit_env (read_lines readable (newline # content))))"
    by code_simp
  then have ok: "verify sample_audit_env readable (Some content) = Inr 1"
      "verify sample_audit_env readable (Some (newline # content)) = Inr 1"
    and one: "length (records sample_audit_env (read_lines readable content)) = 1"
      "length (records sample_audit_env (read_lines readable (newline # content))) = 1"
      "ri_hash (last (records sample_audit_env (read_lines readable content))) =
       ri_hash (last (records sample_audit_env (read_lines readable (newline # content))))"
    unfolding log by simp_all
  have "records sample_audit_env (read_lines readable content) \<noteq> []"
    using one(1) by (cases "records sample_audit_env (read_lines readable content)") simp_all
  with verified_logs_agree [OF sample_audit_lawful ok, of 0] one show ?thesis
    unfolding log by simp
qed

end
