(* ===== verification/Spec2Isabelle.thy ===== *)
theory Spec2Isabelle
  imports Recovery_Decision Transition_Contracts Recovery_Code Lease_Engine Audit_Chain
begin

text \<open>
  Verification of terrapi-vesta. (Header in progress.)
\<close>

end
